theory Spec2Isabelle
  imports Main "HOL-Library.Sublist"
begin

section \<open>Strings and thrown values\<close>

text \<open>
  A JavaScript string is a sequence of UTF-16 code units; a code unit is modelled as a
  natural number and a string as a list of them, so that \<open>length\<close> is \<open>.length\<close> and
  \<open>take\<close>/\<open>drop\<close> are \<open>slice\<close>. ASCII literals of the source are written with \<open>ascii\<close>.
\<close>

type_synonym jsstring = "nat list"

definition ascii :: "string \<Rightarrow> jsstring" where
  "ascii s = map of_char s"

text \<open>
  A thrown value, as the \<open>catch\<close> clause of the crawler reads it: its \<open>message\<close> property
  (absent for a value that is not an Error) and the result of \<open>String(e)\<close>.
\<close>

record exn =
  message :: "jsstring option"
  toString :: jsstring

section \<open>Fetcher (fetcher.ts)\<close>

text \<open>
  The instance fields of the class: \<open>lastFetchAt\<close>, \<open>cache\<close> (a Map from url to
  \<open>{ at, text }\<close>, here a pair) and the constructor parameter \<open>rateLimitMs\<close>.
\<close>

record Fetcher =
  lastFetchAt :: int
  cache :: "jsstring \<rightharpoonup> (int \<times> jsstring)"
  rateLimitMs :: int

text \<open>
  What the class touches outside itself. \<open>clock\<close> is the value \<open>Date.now()\<close> returns.
  \<open>sleeps\<close> lists the delays handed to \<open>setTimeout\<close> and \<open>requests\<close> the calls of
  \<open>requestUrl\<close> with the time each was issued; both are traces, never read by the code.
  A timer is taken to fire exactly when it is due.
\<close>

record Clock =
  clock :: int
  sleeps :: "int list"
  requests :: "(jsstring \<times> int) list"

text \<open>
  The network: for a url and the time the request is issued, how long the request takes
  and whether it yields the response text or throws.
\<close>

type_synonym network = "jsstring \<Rightarrow> int \<Rightarrow> nat \<times> (exn + jsstring)"

definition initFetcher :: "int \<Rightarrow> Fetcher" where
  "initFetcher ms = \<lparr>lastFetchAt = 0, cache = Map.empty, rateLimitMs = ms\<rparr>"

definition setRateLimit :: "int \<Rightarrow> Fetcher \<Rightarrow> Fetcher" where
  "setRateLimit ms f = f\<lparr>rateLimitMs := ms\<rparr>"

definition rateLimit :: "Fetcher \<times> Clock \<Rightarrow> Fetcher \<times> Clock" where
  "rateLimit fc =
     (let f = fst fc; c = snd fc;
          now = clock c;
          delta = now - lastFetchAt f;
          c1 = (if delta < rateLimitMs f
                then c\<lparr>clock := clock c + (rateLimitMs f - delta),
                       sleeps := sleeps c @ [rateLimitMs f - delta]\<rparr>
                else c)
      in (f\<lparr>lastFetchAt := clock c1\<rparr>, c1))"

definition get :: "network \<Rightarrow> jsstring \<Rightarrow> bool \<Rightarrow> Fetcher \<times> Clock
    \<Rightarrow> (exn + jsstring) \<times> Fetcher \<times> Clock" where
  "get net url useCache fc =
     (case (if useCache then cache (fst fc) url else None) of
        Some hit \<Rightarrow> (Inr (snd hit), fst fc, snd fc)
      | None \<Rightarrow>
          (let fc1 = rateLimit fc;
               f1 = fst fc1; c1 = snd fc1;
               resp = net url (clock c1);
               c2 = c1\<lparr>clock := clock c1 + int (fst resp),
                       requests := requests c1 @ [(url, clock c1)]\<rparr>
           in case snd resp of
                Inl e \<Rightarrow> (Inl e, f1, c2)
              | Inr txt \<Rightarrow> (Inr txt, f1\<lparr>cache := (cache f1)(url \<mapsto> (clock c2, txt))\<rparr>, c2)))"

text \<open>The delay \<open>rateLimit\<close> imposes on a fetcher at a given time.\<close>

definition imposedDelay :: "Fetcher \<Rightarrow> Clock \<Rightarrow> int" where
  "imposedDelay f c = max 0 (rateLimitMs f - (clock c - lastFetchAt f))"

subsection \<open>A concrete run: a request that takes 700 ms\<close>

definition slowNet :: network where
  "slowNet url t = (700, Inr (ascii ''page''))"

definition fetcherAt0 :: Fetcher where
  "fetcherAt0 = initFetcher 1000"

definition clockAt5000 :: Clock where
  "clockAt5000 = \<lparr>clock = 5000, sleeps = [], requests = []\<rparr>"

lemma rateLimit_fst:
  "lastFetchAt (fst (rateLimit (f, c))) = clock c + imposedDelay f c"
  "cache (fst (rateLimit (f, c))) = cache f"
  "rateLimitMs (fst (rateLimit (f, c))) = rateLimitMs f"
  by (auto simp: rateLimit_def imposedDelay_def Let_def)

lemma rateLimit_snd:
  "clock (snd (rateLimit (f, c))) = clock c + imposedDelay f c"
  "requests (snd (rateLimit (f, c))) = requests c"
  "sleeps (snd (rateLimit (f, c))) =
     sleeps c @ (if 0 < imposedDelay f c then [imposedDelay f c] else [])"
  by (auto simp: rateLimit_def imposedDelay_def Let_def)

lemma get_miss:
  assumes "\<not> (useCache \<and> url \<in> dom (cache f))"
  shows "get net url useCache (f, c) =
     (let fc1 = rateLimit (f, c);
          resp = net url (clock (snd fc1));
          c2 = (snd fc1)\<lparr>clock := clock (snd fc1) + int (fst resp),
                           requests := requests (snd fc1) @ [(url, clock (snd fc1))]\<rparr>
      in case snd resp of
           Inl e \<Rightarrow> (Inl e, fst fc1, c2)
         | Inr txt \<Rightarrow>
             (Inr txt, (fst fc1)\<lparr>cache := (cache (fst fc1))(url \<mapsto> (clock c2, txt))\<rparr>, c2))"
proof (cases useCache)
  case True
  with assms have "cache f url = None"
    by (cases "cache f url") (auto simp: dom_def)
  with True show ?thesis
    by (simp add: get_def Let_def)
next
  case False
  then show ?thesis
    by (simp add: get_def Let_def)
qed

text \<open>
  C1, as stated, fails on the code: \<open>rateLimit\<close> stores \<open>lastFetchAt\<close> when the wait is over
  and before \<open>requestUrl\<close> is called. A request issued at 5000 that takes 700 ms leaves
  \<open>lastFetchAt = 5000\<close> while the fetch completes at 5700, and the following call is delayed
  by 300 ms only, where a timestamp taken at completion would impose 1000 ms.
\<close>

theorem C1_timestamp_counterexample:
  "lastFetchAt (fst (snd (get slowNet (ascii ''u'') True (fetcherAt0, clockAt5000)))) = 5000
   \<and> clock (snd (snd (get slowNet (ascii ''u'') True (fetcherAt0, clockAt5000)))) = 5700
   \<and> imposedDelay (fst (snd (get slowNet (ascii ''u'') True (fetcherAt0, clockAt5000))))
        (snd (snd (get slowNet (ascii ''u'') True (fetcherAt0, clockAt5000)))) = 300"
  by (simp add: get_def rateLimit_def slowNet_def fetcherAt0_def clockAt5000_def
      initFetcher_def imposedDelay_def Let_def)

text \<open>
  C1, amended: a cache hit with \<open>useCache\<close> returns the cached text and changes nothing (no
  timer, no request, the clock does not move). Otherwise the call waits exactly the
  remaining difference \<open>rateLimitMs - (now - lastFetchAt)\<close> when that is positive, issues
  the request at that moment, and \<open>lastFetchAt\<close> is the time the request was issued, not the
  time it completed: the duration of the fetch counts towards the interval of the next call.
\<close>

theorem C1_get_rate_limited:
  "(useCache \<and> cache f url = Some (a, t) \<longrightarrow>
      get net url useCache (f, c) = (Inr t, f, c))
   \<and> (\<not> (useCache \<and> url \<in> dom (cache f)) \<longrightarrow>
      (let r = get net url useCache (f, c); f' = fst (snd r); c' = snd (snd r);
           issued = clock c + imposedDelay f c
       in sleeps c' = sleeps c @ (if 0 < imposedDelay f c then [imposedDelay f c] else [])
          \<and> requests c' = requests c @ [(url, issued)]
          \<and> lastFetchAt f' = issued
          \<and> clock c' = issued + int (fst (net url issued))
          \<and> fst r = snd (net url issued)))"
proof (intro conjI impI)
  assume "useCache \<and> cache f url = Some (a, t)"
  then show "get net url useCache (f, c) = (Inr t, f, c)"
    by (simp add: get_def)
next
  assume miss: "\<not> (useCache \<and> url \<in> dom (cache f))"
  show "let r = get net url useCache (f, c); f' = fst (snd r); c' = snd (snd r);
            issued = clock c + imposedDelay f c
        in sleeps c' = sleeps c @ (if 0 < imposedDelay f c then [imposedDelay f c] else [])
           \<and> requests c' = requests c @ [(url, issued)]
           \<and> lastFetchAt f' = issued
           \<and> clock c' = issued + int (fst (net url issued))
           \<and> fst r = snd (net url issued)"
    using miss by (simp add: get_miss Let_def rateLimit_fst rateLimit_snd split: sum.split)
qed

theorem C1_get_rate_limited_witness:
  "get slowNet (ascii ''u'') True
      (fetcherAt0\<lparr>cache := [ascii ''u'' \<mapsto> (1, ascii ''old'')]\<rparr>, clockAt5000)
     = (Inr (ascii ''old''), fetcherAt0\<lparr>cache := [ascii ''u'' \<mapsto> (1, ascii ''old'')]\<rparr>,
        clockAt5000)
   \<and> sleeps (snd (snd (get slowNet (ascii ''u'') False
        (fetcherAt0\<lparr>lastFetchAt := 4400\<rparr>, clockAt5000)))) = [400]
   \<and> requests (snd (snd (get slowNet (ascii ''u'') False
        (fetcherAt0\<lparr>lastFetchAt := 4400\<rparr>, clockAt5000)))) = [(ascii ''u'', 5400)]
   \<and> lastFetchAt (fst (snd (get slowNet (ascii ''u'') False
        (fetcherAt0\<lparr>lastFetchAt := 4400\<rparr>, clockAt5000)))) = 5400
   \<and> clock (snd (snd (get slowNet (ascii ''u'') False
        (fetcherAt0\<lparr>lastFetchAt := 4400\<rparr>, clockAt5000)))) = 6100"
  using C1_get_rate_limited [of True "fetcherAt0\<lparr>cache := [ascii ''u'' \<mapsto> (1, ascii ''old'')]\<rparr>"
      "ascii ''u''" 1 "ascii ''old''" slowNet clockAt5000]
    C1_get_rate_limited [of False "fetcherAt0\<lparr>lastFetchAt := 4400\<rparr>" "ascii ''u''" 0 "[]"
      slowNet clockAt5000]
  by (simp add: Let_def imposedDelay_def fetcherAt0_def clockAt5000_def initFetcher_def
      slowNet_def)

text \<open>
  C10: a call with \<open>useCache = false\<close> does not read the cache: whatever the cache holds
  for the url, the call issues one request, when the rate limit allows it, and returns
  what the network returns. When the request yields the text \<open>t\<close>, the cache afterwards
  is the cache before with \<open>t\<close> stored under the url, and a following call with
  \<open>useCache = true\<close> returns \<open>t\<close> with the fetcher and the clock untouched: no timer and no
  request.
\<close>

theorem C10_bypass_still_writes_cache:
  "let r = get net url False (f, c); f' = fst (snd r); c' = snd (snd r);
       issued = clock c + imposedDelay f c
   in requests c' = requests c @ [(url, issued)]
      \<and> fst r = snd (net url issued)
      \<and> (\<forall>t. snd (net url issued) = Inr t \<longrightarrow>
            cache f' = (cache f)(url \<mapsto> (clock c', t))
            \<and> get net2 url True (f', c') = (Inr t, f', c'))"
proof -
  have miss: "\<not> (False \<and> url \<in> dom (cache f))"
    by simp
  show ?thesis
    by (simp add: get_miss [OF miss] Let_def rateLimit_fst rateLimit_snd get_def split: sum.split)
qed

text \<open>A stale cache: the bypassing call replaces the old text by the page it fetched.\<close>

definition staleFetcher :: Fetcher where
  "staleFetcher = fetcherAt0\<lparr>cache := [ascii ''u'' \<mapsto> (1, ascii ''old'')]\<rparr>"

theorem C10_bypass_still_writes_cache_witness:
  "get slowNet (ascii ''u'') True (staleFetcher, clockAt5000)
     = (Inr (ascii ''old''), staleFetcher, clockAt5000)
   \<and> get slowNet (ascii ''u'') False (staleFetcher, clockAt5000)
     = (Inr (ascii ''page''),
        \<lparr>lastFetchAt = 5000, cache = [ascii ''u'' \<mapsto> (5700, ascii ''page'')],
         rateLimitMs = 1000\<rparr>,
        \<lparr>clock = 5700, sleeps = [], requests = [(ascii ''u'', 5000)]\<rparr>)
   \<and> get slowNet (ascii ''u'') True
        (\<lparr>lastFetchAt = 5000, cache = [ascii ''u'' \<mapsto> (5700, ascii ''page'')],
          rateLimitMs = 1000\<rparr>,
         \<lparr>clock = 5700, sleeps = [], requests = [(ascii ''u'', 5000)]\<rparr>)
     = (Inr (ascii ''page''),
        \<lparr>lastFetchAt = 5000, cache = [ascii ''u'' \<mapsto> (5700, ascii ''page'')],
         rateLimitMs = 1000\<rparr>,
        \<lparr>clock = 5700, sleeps = [], requests = [(ascii ''u'', 5000)]\<rparr>)"
proof -
  have hit: "get slowNet (ascii ''u'') True (staleFetcher, clockAt5000)
     = (Inr (ascii ''old''), staleFetcher, clockAt5000)"
    by (simp add: get_def staleFetcher_def)
  have run: "get slowNet (ascii ''u'') False (staleFetcher, clockAt5000)
     = (Inr (ascii ''page''),
        \<lparr>lastFetchAt = 5000, cache = [ascii ''u'' \<mapsto> (5700, ascii ''page'')],
         rateLimitMs = 1000\<rparr>,
        \<lparr>clock = 5700, sleeps = [], requests = [(ascii ''u'', 5000)]\<rparr>)"
    by (simp add: get_def rateLimit_def slowNet_def staleFetcher_def fetcherAt0_def clockAt5000_def
        initFetcher_def Let_def)
  have net: "snd (slowNet (ascii ''u'') (clock clockAt5000 + imposedDelay staleFetcher clockAt5000))
      = Inr (ascii ''page'')"
    by (simp add: slowNet_def)
  from C10_bypass_still_writes_cache [of slowNet "ascii ''u''" staleFetcher clockAt5000 slowNet] net
  have "get slowNet (ascii ''u'') True
          (fst (snd (get slowNet (ascii ''u'') False (staleFetcher, clockAt5000))),
           snd (snd (get slowNet (ascii ''u'') False (staleFetcher, clockAt5000))))
        = (Inr (ascii ''page''),
           fst (snd (get slowNet (ascii ''u'') False (staleFetcher, clockAt5000))),
           snd (snd (get slowNet (ascii ''u'') False (staleFetcher, clockAt5000))))"
    unfolding Let_def by blast
  then have again: "get slowNet (ascii ''u'') True
        (\<lparr>lastFetchAt = 5000, cache = [ascii ''u'' \<mapsto> (5700, ascii ''page'')],
          rateLimitMs = 1000\<rparr>,
         \<lparr>clock = 5700, sleeps = [], requests = [(ascii ''u'', 5000)]\<rparr>)
     = (Inr (ascii ''page''),
        \<lparr>lastFetchAt = 5000, cache = [ascii ''u'' \<mapsto> (5700, ascii ''page'')],
         rateLimitMs = 1000\<rparr>,
        \<lparr>clock = 5700, sleeps = [], requests = [(ascii ''u'', 5000)]\<rparr>)"
    unfolding run fst_conv snd_conv .
  from hit run again show ?thesis
    by (intro conjI)
qed

section \<open>String primitives\<close>

text \<open>
  \<open>findFirst P s\<close> is the least index \<open>i \<le> length s\<close> at which the rest of the string
  satisfies \<open>P\<close>; \<open>indexOf\<close> is \<open>String.prototype.indexOf\<close>, with \<open>None\<close> for \<open>-1\<close>.
\<close>

fun findFirst :: "('a list \<Rightarrow> bool) \<Rightarrow> 'a list \<Rightarrow> nat option" where
  "findFirst P [] = (if P [] then Some 0 else None)"
| "findFirst P (x # xs) = (if P (x # xs) then Some 0 else map_option Suc (findFirst P xs))"

definition indexOf :: "'a list \<Rightarrow> 'a list \<Rightarrow> nat option" where
  "indexOf s pat = findFirst (prefix pat) s"

definition includesStr :: "'a list \<Rightarrow> 'a list \<Rightarrow> bool" where
  "includesStr s pat = (indexOf s pat \<noteq> None)"

text \<open>\<open>Array.from(new Set(xs))\<close>: the first occurrence of every element, in order.\<close>

definition uniq :: "'a list \<Rightarrow> 'a list" where
  "uniq xs = rev (remdups (rev xs))"

text \<open>\<open>s.replace(/^\/+|\/+$/g, "")\<close>: the slashes at both ends removed.\<close>

definition stripSlashes :: "jsstring \<Rightarrow> jsstring" where
  "stripSlashes s = rev (dropWhile (\<lambda>c. c = 47) (rev (dropWhile (\<lambda>c. c = 47) s)))"

text \<open>
  The white space of \<open>\s\<close> and of \<open>trim\<close>: tab, line feed, vertical tab, form feed,
  carriage return, space, no-break space, U+1680, U+2000 to U+200A, U+2028, U+2029,
  U+202F, U+205F, U+3000 and U+FEFF.
\<close>

definition isSpace :: "nat \<Rightarrow> bool" where
  "isSpace c = ((9 \<le> c \<and> c \<le> 13) \<or> c = 32 \<or> c = 160 \<or> c = 5760 \<or> (8192 \<le> c \<and> c \<le> 8202)
                \<or> c = 8232 \<or> c = 8233 \<or> c = 8239 \<or> c = 8287 \<or> c = 12288 \<or> c = 65279)"

definition trim :: "jsstring \<Rightarrow> jsstring" where
  "trim s = rev (dropWhile isSpace (rev (dropWhile isSpace s)))"

text \<open>\<open>\w\<close>: a letter of ASCII, a digit or the underscore.\<close>

definition isWordChar :: "nat \<Rightarrow> bool" where
  "isWordChar c = ((48 \<le> c \<and> c \<le> 57) \<or> (65 \<le> c \<and> c \<le> 90) \<or> c = 95 \<or> (97 \<le> c \<and> c \<le> 122))"

definition isDigit :: "nat \<Rightarrow> bool" where
  "isDigit c = (48 \<le> c \<and> c \<le> 57)"

text \<open>
  \<open>\b\<close> between two neighbouring positions: exactly one side is a word character; the
  start and the end of the string count as not a word character.
\<close>

definition wordBoundary :: "nat option \<Rightarrow> jsstring \<Rightarrow> bool" where
  "wordBoundary prev rest =
     ((case prev of None \<Rightarrow> False | Some c \<Rightarrow> isWordChar c)
      \<noteq> (case rest of [] \<Rightarrow> False | c # _ \<Rightarrow> isWordChar c))"

definition lastOpt :: "'a list \<Rightarrow> 'a option" where
  "lastOpt xs = (if xs = [] then None else Some (last xs))"

text \<open>
  The replacement text of \<open>replace\<close> and \<open>replaceAll\<close> for a pattern without groups:
  \<open>$$\<close> is a dollar, \<open>$&\<close> the match, \<open>$`\<close> the text before it and \<open>$'\<close> the text after it.
\<close>

fun substitute :: "jsstring \<Rightarrow> jsstring \<Rightarrow> jsstring \<Rightarrow> jsstring \<Rightarrow> jsstring" where
  "substitute matched left right (d # c # r) =
     (if d = 36 \<and> c = 36 then 36 # substitute matched left right r
      else if d = 36 \<and> c = 38 then matched @ substitute matched left right r
      else if d = 36 \<and> c = 96 then left @ substitute matched left right r
      else if d = 36 \<and> c = 39 then right @ substitute matched left right r
      else d # substitute matched left right (c # r))"
| "substitute matched left right r = r"

text \<open>
  A replace with the \<open>g\<close> flag. The matcher gives, for the code unit before a position and
  the rest of the string from it, the length of the match that starts there. After an
  empty match the next code unit is copied.
\<close>

type_synonym matcher = "nat option \<Rightarrow> jsstring \<Rightarrow> nat option"

function replaceGlobal :: "matcher \<Rightarrow> (jsstring \<Rightarrow> jsstring \<Rightarrow> jsstring \<Rightarrow> jsstring) \<Rightarrow> jsstring
    \<Rightarrow> jsstring \<Rightarrow> jsstring" where
  "replaceGlobal mt rep left rest =
     (case mt (lastOpt left) rest of
        None \<Rightarrow> (case rest of
                   [] \<Rightarrow> []
                 | c # cs \<Rightarrow> c # replaceGlobal mt rep (left @ [c]) cs)
      | Some n \<Rightarrow>
          (if min n (length rest) = 0
           then (case rest of
                   [] \<Rightarrow> rep [] left []
                 | c # cs \<Rightarrow> rep [] left rest @ c # replaceGlobal mt rep (left @ [c]) cs)
           else rep (take n rest) left (drop n rest)
                  @ replaceGlobal mt rep (left @ take n rest) (drop n rest)))"
  by pat_completeness auto
termination
  by (relation "measure (\<lambda>(mt, rep, left, rest). length rest)") auto

definition literally :: "jsstring \<Rightarrow> matcher" where
  "literally pat prev rest = (if prefix pat rest then Some (length pat) else None)"

text \<open>\<open>s.replaceAll(pat, by)\<close> for a string pattern.\<close>

definition replaceAll :: "jsstring \<Rightarrow> jsstring \<Rightarrow> jsstring \<Rightarrow> jsstring" where
  "replaceAll s pat by = replaceGlobal (literally pat) (\<lambda>m b a. substitute m b a by) [] s"

text \<open>\<open>s.split(sep)\<close> for a separator of one code unit.\<close>

fun splitOn :: "nat \<Rightarrow> jsstring \<Rightarrow> jsstring list" where
  "splitOn sep [] = [[]]"
| "splitOn sep (c # cs) =
     (if c = sep then [] # splitOn sep cs
      else (case splitOn sep cs of [] \<Rightarrow> [[c]] | w # ws \<Rightarrow> (c # w) # ws))"

text \<open>
  The decimal digits of an integer, as a template literal prints a number whose absolute
  value is below \<open>10^21\<close>. From \<open>10^21\<close> on \<open>String\<close> prints the exponent form, which
  \<open>showInt\<close> does not follow: it stands for the source on the smaller numbers only.
\<close>

function decimal :: "nat \<Rightarrow> jsstring" where
  "decimal n = (if n < 10 then [48 + n] else decimal (n div 10) @ [48 + n mod 10])"
  by pat_completeness auto
termination
  by (relation "measure (\<lambda>n. n)") auto

definition showInt :: "int \<Rightarrow> jsstring" where
  "showInt i = (if i < 0 then 45 # decimal (nat (- i)) else decimal (nat i))"

text \<open>Upper case of one code unit of ASCII; other code units are left as they are.\<close>

definition upperAscii :: "nat \<Rightarrow> nat" where
  "upperAscii c = (if 97 \<le> c \<and> c \<le> 122 then c - 32 else c)"

definition lowerAscii :: "nat \<Rightarrow> nat" where
  "lowerAscii c = (if 65 \<le> c \<and> c \<le> 90 then c + 32 else c)"

section \<open>Data model (types.ts)\<close>

datatype Lang = greek | hebrew

datatype EdgeType = SeeAlso | RelatedStrongs | Topical

datatype LinkType = Strongs | Scripture

datatype SectionKey =
    lexical_summary | strongs_definition | helps | thayers
  | forms_transliterations | englishmans_concordance | concordance | topical_lexicon

datatype AliasMode = AliasPrimary | AliasAll

record ScriptureRef =
  slug :: jsstring
  chapterNo :: int
  verseNo :: int
  display :: jsstring
  interlinearUrl :: jsstring
  nasbUrl :: jsstring

record Links =
  see_also :: "jsstring list"
  related_strongs :: "jsstring list"
  topical :: "jsstring list"
  scripture :: "ScriptureRef list"

text \<open>
  The optional fields are options; \<open>blocks\<close> is a \<open>Partial<Record<SectionKey, string>>\<close>.
  The field \<open>lemma\<close> of the source is \<open>entryLemma\<close> here.
\<close>

record LexiconEntry =
  strong :: jsstring
  lang :: Lang
  entryLemma :: "jsstring option"
  transliteration :: "jsstring option"
  pronunciation :: "jsstring option"
  phonetic :: "jsstring option"
  part_of_speech :: "jsstring option"
  source_primary :: jsstring
  source_alt :: "jsstring list"
  blocks :: "SectionKey \<rightharpoonup> jsstring"
  links :: Links

record CrawlResult =
  created :: int
  updated :: int
  skipped :: int
  errors :: "(jsstring \<times> jsstring) list"

record Recipe =
  recipeId :: jsstring
  includeSections :: "SectionKey list"
  followEdges :: "EdgeType list"
  linkTypes :: "LinkType list"
  linkGreekHebrew :: bool
  lemmaAliasMode :: AliasMode
  maxDepth :: int
  maxNodes :: int
  recipeRateLimitMs :: int
  skipExisting :: bool
  rootFolder :: jsstring
  scriptureRootFolder :: jsstring
  noteTitlePattern :: jsstring

text \<open>A value is truthy, for an optional string: defined and not empty.\<close>

definition truthy :: "jsstring option \<Rightarrow> bool" where
  "truthy v = (case v of None \<Rightarrow> False | Some s \<Rightarrow> s \<noteq> [])"

section \<open>Identifiers and urls (normalize.ts)\<close>

text \<open>
  \<open>strong.toUpperCase().startsWith("G")\<close>: the first code unit is \<open>G\<close> or \<open>g\<close>, the only
  code units whose upper case begins with \<open>G\<close>.
\<close>

definition langFromStrong :: "jsstring \<Rightarrow> Lang" where
  "langFromStrong s = (case s of [] \<Rightarrow> hebrew | c # _ \<Rightarrow> if c = 71 \<or> c = 103 then greek else hebrew)"

definition langName :: "Lang \<Rightarrow> jsstring" where
  "langName l = (case l of greek \<Rightarrow> ascii ''greek'' | hebrew \<Rightarrow> ascii ''hebrew'')"

definition strongsUrl :: "jsstring \<Rightarrow> jsstring" where
  "strongsUrl s =
     ascii ''https://biblehub.com/strongs/'' @ langName (langFromStrong s) @ ascii ''/''
       @ drop 1 s @ ascii ''.htm''"

section \<open>Crawler (crawler.ts)\<close>

type_synonym QueueItem = "jsstring \<times> int"

record TFile =
  path :: jsstring
  basename :: jsstring

text \<open>
  What \<open>run\<close> calls outside its own loop, over a state \<open>'w\<close> of the outside world (vault,
  fetcher, clock). Every stage returns the new world and either a value or the thrown
  value; the theorems below hold whatever these stages do.
\<close>

record 'w Stages =
  getMarkdownFiles :: "'w \<Rightarrow> TFile list"
  fetcherSetRateLimit :: "'w \<Rightarrow> int \<Rightarrow> 'w"
  fetcherGet :: "'w \<Rightarrow> jsstring \<Rightarrow> 'w \<times> (exn + jsstring)"
  parseEntryFromStrongsPage :: "jsstring \<Rightarrow> jsstring \<Rightarrow> jsstring \<Rightarrow> exn + LexiconEntry"
  buildLemmaIndex :: "'w \<Rightarrow> jsstring \<Rightarrow> 'w \<times> (exn + (jsstring \<rightharpoonup> jsstring))"
  applyLemmaLinks :: "'w \<Rightarrow> LexiconEntry \<Rightarrow> (jsstring \<rightharpoonup> jsstring) \<Rightarrow> Recipe
      \<Rightarrow> 'w \<times> (exn + LexiconEntry)"
  writerUpsert :: "'w \<Rightarrow> LexiconEntry \<Rightarrow> Recipe \<Rightarrow> 'w \<times> (exn + bool)"
  ensureScriptureNote :: "'w \<Rightarrow> jsstring \<Rightarrow> ScriptureRef \<Rightarrow> jsstring list \<Rightarrow> 'w \<times> exn option"

text \<open>
  The local variables of \<open>run\<close>. \<open>fetched\<close> and \<open>enqueued\<close> are traces the code does not
  have: the (id, url) of every call of \<open>fetcher.get\<close> made by \<open>run\<close>, and every item ever
  put on the queue. Nothing in the model reads them.
\<close>

record 'w RunState =
  res :: CrawlResult
  lemmaIndex :: "jsstring \<rightharpoonup> jsstring"
  seen :: "jsstring list"
  q :: "QueueItem list"
  processed :: int
  world :: 'w
  fetched :: "(jsstring \<times> jsstring) list"
  enqueued :: "QueueItem list"

definition findExistingByStrongIdFallback :: "'w Stages \<Rightarrow> 'w \<Rightarrow> jsstring \<Rightarrow> Recipe \<Rightarrow> TFile option" where
  "findExistingByStrongIdFallback S w sid recipe =
     (let folder = stripSlashes (rootFolder recipe);
          files = filter (\<lambda>f. prefix (folder @ ascii ''/'') (path f)) (getMarkdownFiles S w)
      in find (\<lambda>f. includesStr (basename f) sid) files)"

definition nextNodes :: "LexiconEntry \<Rightarrow> EdgeType list \<Rightarrow> jsstring list" where
  "nextNodes entry edgeTypes =
     uniq (concat (map (\<lambda>et. case et of
                           SeeAlso \<Rightarrow> see_also (links entry)
                         | RelatedStrongs \<Rightarrow> related_strongs (links entry)
                         | Topical \<Rightarrow> topical (links entry)) edgeTypes))"

text \<open>\<open>e?.message ?? String(e)\<close>\<close>

definition errorText :: "exn \<Rightarrow> jsstring" where
  "errorText e = (case message e of Some m \<Rightarrow> m | None \<Rightarrow> toString e)"

text \<open>The loop over \<open>entry.links.scripture\<close>: it stops at the first note that throws.\<close>

fun ensureScriptureNotes :: "'w Stages \<Rightarrow> jsstring \<Rightarrow> jsstring list \<Rightarrow> 'w \<Rightarrow> ScriptureRef list
    \<Rightarrow> 'w \<times> exn option" where
  "ensureScriptureNotes S folder related w [] = (w, None)"
| "ensureScriptureNotes S folder related w (r # rs) =
     (case ensureScriptureNote S w folder r related of
        (w', Some e) \<Rightarrow> (w', Some e)
      | (w', None) \<Rightarrow> ensureScriptureNotes S folder related w' rs)"

definition wikilink :: "jsstring \<Rightarrow> jsstring" where
  "wikilink s = ascii ''[['' @ s @ ascii '']]''"

text \<open>The push loop at the end of the \<open>try\<close> block; \<open>seen\<close> does not change while it runs.\<close>

definition enqueueNext :: "jsstring list \<Rightarrow> int \<Rightarrow> 'w RunState \<Rightarrow> 'w RunState" where
  "enqueueNext nexts depth s =
     (let new = map (\<lambda>n. (n, depth + 1)) (filter (\<lambda>n. n \<notin> set (seen s)) nexts)
      in s\<lparr>q := q s @ new, enqueued := enqueued s @ new\<rparr>)"

text \<open>
  The body of the \<open>try\<close> block for one node, in the order of the source and cut at the
  calls that follow the fetch. Each part returns the thrown value, if any, and the state
  with every effect that happened before the throw.
\<close>

text \<open>After \<open>upsert\<close> returned: count it, write the scripture notes, enqueue the edges.\<close>

definition afterUpsert :: "'w Stages \<Rightarrow> Recipe \<Rightarrow> int \<Rightarrow> LexiconEntry \<Rightarrow> bool \<Rightarrow> 'w RunState
    \<Rightarrow> exn option \<times> 'w RunState" where
  "afterUpsert S recipe depth entry isNew s4 =
     (let s5 = s4\<lparr>res := (if isNew
                             then (res s4)\<lparr>created := created (res s4) + 1\<rparr>
                             else (res s4)\<lparr>updated := updated (res s4) + 1\<rparr>)\<rparr>;
          notes = (if Scripture \<in> set (linkTypes recipe) \<and> scripture (links entry) \<noteq> []
                   then ensureScriptureNotes S (scriptureRootFolder recipe)
                          (map wikilink (uniq (strong entry # related_strongs (links entry))))
                          (world s5) (scripture (links entry))
                   else (world s5, None));
          s6 = s5\<lparr>world := fst notes\<rparr>
      in case snd notes of
           Some e \<Rightarrow> (Some e, s6)
         | None \<Rightarrow>
             (None, if depth < maxDepth recipe
                    then enqueueNext (nextNodes entry (followEdges recipe)) depth s6
                    else s6))"

text \<open>After \<open>applyLemmaLinks\<close> (or without it): the upsert.\<close>

definition afterLinks :: "'w Stages \<Rightarrow> Recipe \<Rightarrow> int \<Rightarrow> LexiconEntry \<Rightarrow> 'w RunState
    \<Rightarrow> exn option \<times> 'w RunState" where
  "afterLinks S recipe depth entry s3 =
     (let up = writerUpsert S (world s3) entry recipe;
          s4 = s3\<lparr>world := fst up\<rparr>
      in case snd up of
           Inl e \<Rightarrow> (Some e, s4)
         | Inr isNew \<Rightarrow> afterUpsert S recipe depth entry isNew s4)"

text \<open>After the page was parsed: update the lemma index, link the lemmas.\<close>

definition afterParse :: "'w Stages \<Rightarrow> Recipe \<Rightarrow> int \<Rightarrow> LexiconEntry \<Rightarrow> 'w RunState
    \<Rightarrow> exn option \<times> 'w RunState" where
  "afterParse S recipe depth entry0 s1 =
     (let s2 = (if truthy (entryLemma entry0)
                then s1\<lparr>lemmaIndex := (lemmaIndex s1)(the (entryLemma entry0) \<mapsto> strong entry0)\<rparr>
                else s1);
          linked = (if linkGreekHebrew recipe
                    then applyLemmaLinks S (world s2) entry0 (lemmaIndex s2) recipe
                    else (world s2, Inr entry0));
          s3 = s2\<lparr>world := fst linked\<rparr>
      in case snd linked of
           Inl e \<Rightarrow> (Some e, s3)
         | Inr entry \<Rightarrow> afterLinks S recipe depth entry s3)"

text \<open>After the page was fetched: the parse.\<close>

definition afterFetch :: "'w Stages \<Rightarrow> Recipe \<Rightarrow> jsstring \<Rightarrow> int \<Rightarrow> jsstring \<Rightarrow> jsstring
    \<Rightarrow> 'w RunState \<Rightarrow> exn option \<times> 'w RunState" where
  "afterFetch S recipe sid depth url html s1 =
     (case parseEntryFromStrongsPage S sid url html of
        Inl e \<Rightarrow> (Some e, s1)
      | Inr entry0 \<Rightarrow> afterParse S recipe depth entry0 s1)"

definition tryNode :: "'w Stages \<Rightarrow> Recipe \<Rightarrow> jsstring \<Rightarrow> int \<Rightarrow> 'w RunState
    \<Rightarrow> exn option \<times> 'w RunState" where
  "tryNode S recipe sid depth s =
     (let url = strongsUrl sid;
          got = fetcherGet S (world s) url;
          s1 = s\<lparr>world := fst got, fetched := fetched s @ [(sid, url)]\<rparr>
      in case snd got of
           Inl e \<Rightarrow> (Some e, s1)
         | Inr html \<Rightarrow> afterFetch S recipe sid depth url html s1)"

text \<open>
  One turn of the \<open>while\<close> loop: \<open>None\<close> when the loop condition fails, otherwise the
  state at the end of the turn (after a \<open>continue\<close> or after \<open>processed++\<close>).
\<close>

definition step :: "'w Stages \<Rightarrow> Recipe \<Rightarrow> 'w RunState \<Rightarrow> 'w RunState option" where
  "step S recipe s =
     (case q s of
        [] \<Rightarrow> None
      | item # rest \<Rightarrow>
          if \<not> processed s < maxNodes recipe then None
          else if fst item \<in> set (seen s) then Some (s\<lparr>q := rest\<rparr>)
          else
            (let s1 = s\<lparr>q := rest, seen := fst item # seen s\<rparr>
             in if findExistingByStrongIdFallback S (world s1) (fst item) recipe \<noteq> None
                   \<and> skipExisting recipe
                then Some (s1\<lparr>res := (res s1)\<lparr>skipped := skipped (res s1) + 1\<rparr>,
                              processed := processed s1 + 1\<rparr>)
                else
                  (case tryNode S recipe (fst item) (snd item) s1 of
                     (None, s2) \<Rightarrow> Some (s2\<lparr>processed := processed s2 + 1\<rparr>)
                   | (Some e, s2) \<Rightarrow>
                       Some (s2\<lparr>res := (res s2)\<lparr>errors := errors (res s2) @ [(fst item, errorText e)]\<rparr>,
                                 processed := processed s2 + 1\<rparr>))))"

text \<open>What the try block may change, for a node at a given depth.\<close>

definition nodeEffect :: "Recipe \<Rightarrow> int \<Rightarrow> 'w RunState \<Rightarrow> 'w RunState \<Rightarrow> bool" where
  "nodeEffect recipe depth s s' =
     (processed s' = processed s \<and> seen s' = seen s \<and> fetched s' = fetched s
      \<and> errors (res s') = errors (res s) \<and> skipped (res s') = skipped (res s)
      \<and> created (res s) \<le> created (res s') \<and> updated (res s) \<le> updated (res s')
      \<and> created (res s') + updated (res s') \<le> created (res s) + updated (res s) + 1
      \<and> (\<exists>new. q s' = q s @ new \<and> enqueued s' = enqueued s @ new
             \<and> (new \<noteq> [] \<longrightarrow> depth < maxDepth recipe)
             \<and> snd ` set new \<subseteq> {depth + 1} \<and> fst ` set new \<inter> set (seen s) = {}))"

lemma nodeEffect_world: "nodeEffect recipe depth s (s\<lparr>world := w\<rparr>)"
  by (simp add: nodeEffect_def)

lemma nodeEffect_lemmaIndex: "nodeEffect recipe depth s (s\<lparr>world := w, lemmaIndex := i\<rparr>)"
  by (simp add: nodeEffect_def)

lemma nodeEffect_pre:
  assumes "nodeEffect recipe depth s1 s'"
    and "processed s1 = processed s" "seen s1 = seen s" "fetched s1 = fetched s"
    and "res s1 = res s" "q s1 = q s" "enqueued s1 = enqueued s"
  shows "nodeEffect recipe depth s s'"
  using assms by (simp add: nodeEffect_def)

lemma nodeEffect_same:
  assumes "processed s' = processed s" "seen s' = seen s" "fetched s' = fetched s"
    and "res s' = res s" "q s' = q s" "enqueued s' = enqueued s"
  shows "nodeEffect recipe depth s s'"
  using assms by (simp add: nodeEffect_def)

lemma afterUpsert_effect:
  "nodeEffect recipe depth s (snd (afterUpsert S recipe depth entry isNew s))"
proof -
  define s5 where "s5 = s\<lparr>res := (if isNew
                             then (res s)\<lparr>created := created (res s) + 1\<rparr>
                             else (res s)\<lparr>updated := updated (res s) + 1\<rparr>)\<rparr>"
  define stored where "stored = (if Scripture \<in> set (linkTypes recipe) \<and> scripture (links entry) \<noteq> []
                   then ensureScriptureNotes S (scriptureRootFolder recipe)
                          (map wikilink (uniq (strong entry # related_strongs (links entry))))
                          (world s5) (scripture (links entry))
                   else (world s5, None))"
  define s6 where "s6 = s5\<lparr>world := fst stored\<rparr>"
  have unf: "afterUpsert S recipe depth entry isNew s =
      (case snd stored of
           Some e \<Rightarrow> (Some e, s6)
         | None \<Rightarrow>
             (None, if depth < maxDepth recipe
                    then enqueueNext (nextNodes entry (followEdges recipe)) depth s6
                    else s6))"
    unfolding afterUpsert_def Let_def s5_def stored_def s6_def by (rule refl)
  have 6: "nodeEffect recipe depth s s6"
    by (simp add: nodeEffect_def s6_def s5_def)
  have 7: "depth < maxDepth recipe \<Longrightarrow>
      nodeEffect recipe depth s (enqueueNext (nextNodes entry (followEdges recipe)) depth s6)"
    by (auto simp: nodeEffect_def enqueueNext_def Let_def s6_def s5_def)
  show ?thesis
    unfolding unf using 6 7 by (simp split: option.split)
qed

lemma afterLinks_effect:
  "nodeEffect recipe depth s (snd (afterLinks S recipe depth entry s))"
proof -
  define up where "up = writerUpsert S (world s) entry recipe"
  define s4 where "s4 = s\<lparr>world := fst up\<rparr>"
  have unf: "afterLinks S recipe depth entry s =
      (case snd up of Inl e \<Rightarrow> (Some e, s4) | Inr isNew \<Rightarrow> afterUpsert S recipe depth entry isNew s4)"
    unfolding afterLinks_def Let_def up_def s4_def by (rule refl)
  have 4: "nodeEffect recipe depth s s4"
    by (simp add: nodeEffect_def s4_def)
  have 5: "nodeEffect recipe depth s (snd (afterUpsert S recipe depth entry isNew s4))" for isNew
    by (rule nodeEffect_pre [OF afterUpsert_effect]) (simp_all add: s4_def)
  show ?thesis
    unfolding unf using 4 5 by (simp split: sum.split)
qed

lemma afterParse_effect:
  "nodeEffect recipe depth s (snd (afterParse S recipe depth entry0 s))"
proof -
  define s2 where "s2 = (if truthy (entryLemma entry0)
                then s\<lparr>lemmaIndex := (lemmaIndex s)(the (entryLemma entry0) \<mapsto> strong entry0)\<rparr>
                else s)"
  define linked where "linked = (if linkGreekHebrew recipe
                    then applyLemmaLinks S (world s2) entry0 (lemmaIndex s2) recipe
                    else (world s2, Inr entry0))"
  define s3 where "s3 = s2\<lparr>world := fst linked\<rparr>"
  have unf: "afterParse S recipe depth entry0 s =
      (case snd linked of Inl e \<Rightarrow> (Some e, s3) | Inr entry \<Rightarrow> afterLinks S recipe depth entry s3)"
    unfolding afterParse_def Let_def s2_def linked_def s3_def by (rule refl)
  have 3: "nodeEffect recipe depth s s3"
    by (simp add: nodeEffect_def s3_def s2_def)
  have 4: "nodeEffect recipe depth s (snd (afterLinks S recipe depth entry s3))" for entry
    by (rule nodeEffect_pre [OF afterLinks_effect]) (simp_all add: s3_def s2_def)
  show ?thesis
    unfolding unf using 3 4 by (simp split: sum.split)
qed

lemma afterFetch_effect:
  "nodeEffect recipe depth s (snd (afterFetch S recipe sid depth url html s))"
proof (cases "parseEntryFromStrongsPage S sid url html")
  case (Inl e)
  then show ?thesis
    by (simp add: afterFetch_def nodeEffect_def)
next
  case (Inr entry0)
  with afterParse_effect [of recipe depth s S entry0] show ?thesis
    by (simp add: afterFetch_def)
qed

lemma tryNode_effect:
  "nodeEffect recipe depth (s\<lparr>fetched := fetched s @ [(sid, strongsUrl sid)]\<rparr>)
     (snd (tryNode S recipe sid depth s))"
proof (cases "snd (fetcherGet S (world s) (strongsUrl sid))")
  case (Inl e)
  then show ?thesis
    by (simp add: tryNode_def Let_def nodeEffect_def)
next
  case (Inr html)
  let ?s1 = "s\<lparr>world := fst (fetcherGet S (world s) (strongsUrl sid)),
               fetched := fetched s @ [(sid, strongsUrl sid)]\<rparr>"
  have "nodeEffect recipe depth (s\<lparr>fetched := fetched s @ [(sid, strongsUrl sid)]\<rparr>)
          (snd (afterFetch S recipe sid depth (strongsUrl sid) html ?s1))"
    by (rule nodeEffect_pre [OF afterFetch_effect]) simp_all
  with Inr show ?thesis
    by (simp add: tryNode_def Let_def)
qed


lemma tryNode_keeps:
  "processed (snd (tryNode S recipe sid depth s)) = processed s"
  "seen (snd (tryNode S recipe sid depth s)) = seen s"
  using tryNode_effect [of recipe depth s sid S] by (simp_all add: nodeEffect_def)

lemma step_decreases:
  assumes "step S recipe s = Some s'"
  shows "processed s < maxNodes recipe
         \<and> (processed s' = processed s + 1 \<or> processed s' = processed s \<and> length (q s') < length (q s))"
proof (cases "q s")
  case Nil
  with assms show ?thesis by (simp add: step_def)
next
  case (Cons item rest)
  obtain e s2 where t: "tryNode S recipe (fst item) (snd item) (s\<lparr>q := rest, seen := fst item # seen s\<rparr>) = (e, s2)"
    by (cases "tryNode S recipe (fst item) (snd item) (s\<lparr>q := rest, seen := fst item # seen s\<rparr>)")
  have p: "processed s2 = processed s"
    using tryNode_keeps(1) [of S recipe "fst item" "snd item" "s\<lparr>q := rest, seen := fst item # seen s\<rparr>"] t
    by simp
  from assms Cons t p show ?thesis
    by (auto simp: step_def Let_def split: if_splits option.splits)
qed

function runLoop :: "'w Stages \<Rightarrow> Recipe \<Rightarrow> 'w RunState \<Rightarrow> 'w RunState" where
  "runLoop S recipe s = (case step S recipe s of None \<Rightarrow> s | Some s' \<Rightarrow> runLoop S recipe s')"
  by pat_completeness auto
termination
proof (relation "measures [\<lambda>(S, recipe, s). nat (maxNodes recipe - processed s),
                           \<lambda>(S, recipe, s). length (q s)]")
  show "wf (measures [\<lambda>(S, recipe, s). nat (maxNodes recipe - processed s),
                      \<lambda>(S :: 'w Stages, recipe, s). length (q s)])"
    by simp
next
  fix S :: "'w Stages" and recipe s s'
  assume "step S recipe s = Some s'"
  from step_decreases [OF this]
  show "((S, recipe, s'), (S, recipe, s))
        \<in> measures [\<lambda>(S, recipe, s). nat (maxNodes recipe - processed s),
                    \<lambda>(S, recipe, s). length (q s)]"
    by auto
qed

definition initRunState :: "jsstring \<Rightarrow> (jsstring \<rightharpoonup> jsstring) \<Rightarrow> 'w \<Rightarrow> 'w RunState" where
  "initRunState rootStrong idx w =
     \<lparr>res = \<lparr>created = 0, updated = 0, skipped = 0, errors = []\<rparr>,
      lemmaIndex = idx, seen = [], q = [(rootStrong, 0)], processed = 0, world = w,
      fetched = [], enqueued = [(rootStrong, 0)]\<rparr>"

text \<open>
  \<open>run\<close>, with the final state of its local variables: the promise rejects when
  \<open>buildLemmaIndex\<close> throws, before the loop.
\<close>

definition runState :: "'w Stages \<Rightarrow> jsstring \<Rightarrow> Recipe \<Rightarrow> 'w \<Rightarrow> exn + 'w RunState" where
  "runState S rootStrong recipe w =
     (let w1 = fetcherSetRateLimit S w (recipeRateLimitMs recipe);
          built = buildLemmaIndex S w1 (rootFolder recipe)
      in case snd built of
           Inl e \<Rightarrow> Inl e
         | Inr idx \<Rightarrow> Inr (runLoop S recipe (initRunState rootStrong idx (fst built))))"

definition run :: "'w Stages \<Rightarrow> jsstring \<Rightarrow> Recipe \<Rightarrow> 'w \<Rightarrow> exn + CrawlResult" where
  "run S rootStrong recipe w = map_sum (\<lambda>e. e) res (runState S rootStrong recipe w)"

declare runLoop.simps [simp del]

lemma runLoop_done: "step S recipe s = None \<Longrightarrow> runLoop S recipe s = s"
  by (simp add: runLoop.simps)

lemma runLoop_next: "step S recipe s = Some s' \<Longrightarrow> runLoop S recipe s = runLoop S recipe s'"
  by (simp add: runLoop.simps)

text \<open>A property that holds before the loop and is kept by every turn holds after it.\<close>

lemma runLoop_invariant:
  assumes "P s" and "\<And>s s'. P s \<Longrightarrow> step S recipe s = Some s' \<Longrightarrow> P s'"
  shows "P (runLoop S recipe s)"
  using assms
proof (induction S recipe s rule: runLoop.induct)
  case (1 S recipe s)
  show ?case
  proof (cases "step S recipe s")
    case None
    with 1 show ?thesis by (simp add: runLoop_done)
  next
    case (Some s')
    from "1.prems"(2) [OF "1.prems"(1) Some] have "P s'" .
    from "1.IH" [OF Some this "1.prems"(2)] Some show ?thesis by (simp add: runLoop_next)
  qed
qed

text \<open>The three ways a turn of the loop ends.\<close>

lemma step_cases:
  assumes "step S recipe s = Some s'"
  obtains
    (discard) sid depth rest where "q s = (sid, depth) # rest" "processed s < maxNodes recipe"
      "sid \<in> set (seen s)" "s' = s\<lparr>q := rest\<rparr>"
  | (skip) sid depth rest where "q s = (sid, depth) # rest" "processed s < maxNodes recipe"
      "sid \<notin> set (seen s)"
      "s' = s\<lparr>q := rest, seen := sid # seen s,
               res := (res s)\<lparr>skipped := skipped (res s) + 1\<rparr>, processed := processed s + 1\<rparr>"
  | (tried) sid depth rest s2 where "q s = (sid, depth) # rest" "processed s < maxNodes recipe"
      "sid \<notin> set (seen s)"
      "tryNode S recipe sid depth (s\<lparr>q := rest, seen := sid # seen s\<rparr>) = (None, s2)"
      "s' = s2\<lparr>processed := processed s2 + 1\<rparr>"
  | (caught) sid depth rest s2 e where "q s = (sid, depth) # rest" "processed s < maxNodes recipe"
      "sid \<notin> set (seen s)"
      "tryNode S recipe sid depth (s\<lparr>q := rest, seen := sid # seen s\<rparr>) = (Some e, s2)"
      "s' = s2\<lparr>res := (res s2)\<lparr>errors := errors (res s2) @ [(sid, errorText e)]\<rparr>,
                processed := processed s2 + 1\<rparr>"
proof (cases "q s")
  case Nil
  with assms show ?thesis by (simp add: step_def)
next
  case (Cons item rest)
  obtain sid depth where item: "item = (sid, depth)" by (cases item)
  obtain r s2 where t: "tryNode S recipe sid depth (s\<lparr>q := rest, seen := sid # seen s\<rparr>) = (r, s2)"
    by (cases "tryNode S recipe sid depth (s\<lparr>q := rest, seen := sid # seen s\<rparr>)")
  from assms Cons item have lt: "processed s < maxNodes recipe"
    by (simp add: step_def split: if_splits)
  show ?thesis
  proof (cases "sid \<in> set (seen s)")
    case True
    with assms Cons item lt have "s' = s\<lparr>q := rest\<rparr>" by (simp add: step_def)
    with Cons item lt True show ?thesis by (intro discard) auto
  next
    case False
    show ?thesis
    proof (cases "findExistingByStrongIdFallback S (world s) sid recipe \<noteq> None \<and> skipExisting recipe")
      case True
      with assms Cons item lt False
      have "s' = s\<lparr>q := rest, seen := sid # seen s,
               res := (res s)\<lparr>skipped := skipped (res s) + 1\<rparr>, processed := processed s + 1\<rparr>"
        by (simp add: step_def Let_def)
      with Cons item lt False show ?thesis by (intro skip) auto
    next
      case nsk: False
      show ?thesis
      proof (cases r)
        case None
        with assms Cons item lt False nsk t have "s' = s2\<lparr>processed := processed s2 + 1\<rparr>"
          by (auto simp add: step_def Let_def)
        with Cons item lt False t None show ?thesis by (intro tried) auto
      next
        case (Some e)
        with assms Cons item lt False nsk t
        have "s' = s2\<lparr>res := (res s2)\<lparr>errors := errors (res s2) @ [(sid, errorText e)]\<rparr>,
                processed := processed s2 + 1\<rparr>"
          by (auto simp add: step_def Let_def)
        with Cons item lt False t Some show ?thesis by (intro caught) auto
      qed
    qed
  qed
qed

lemma tryNode_fetched:
  "fetched (snd (tryNode S recipe sid depth s)) = fetched s @ [(sid, strongsUrl sid)]"
  using tryNode_effect [of recipe depth s sid S] by (simp add: nodeEffect_def)

subsection \<open>No id is fetched twice\<close>

definition fetchedOnce :: "'w RunState \<Rightarrow> bool" where
  "fetchedOnce s =
     (distinct (map fst (fetched s)) \<and> set (map fst (fetched s)) \<subseteq> set (seen s)
      \<and> list_all (\<lambda>p. snd p = strongsUrl (fst p)) (fetched s))"

lemma fetchedOnce_step:
  assumes "fetchedOnce s" and "step S recipe s = Some s'"
  shows "fetchedOnce s'"
  using assms(2)
proof (cases rule: step_cases)
  case (discard sid depth rest)
  with assms(1) show ?thesis by (simp add: fetchedOnce_def)
next
  case (skip sid depth rest)
  with assms(1) show ?thesis by (auto simp: fetchedOnce_def)
next
  case (tried sid depth rest s2)
  from tryNode_fetched [of S recipe sid depth "s\<lparr>q := rest, seen := sid # seen s\<rparr>"]
    tryNode_keeps(2) [of S recipe sid depth "s\<lparr>q := rest, seen := sid # seen s\<rparr>"] tried(4)
  have "fetched s2 = fetched s @ [(sid, strongsUrl sid)]" "seen s2 = sid # seen s"
    by simp_all
  with assms(1) tried(3,5) show ?thesis by (auto simp: fetchedOnce_def)
next
  case (caught sid depth rest s2 e)
  from tryNode_fetched [of S recipe sid depth "s\<lparr>q := rest, seen := sid # seen s\<rparr>"]
    tryNode_keeps(2) [of S recipe sid depth "s\<lparr>q := rest, seen := sid # seen s\<rparr>"] caught(4)
  have "fetched s2 = fetched s @ [(sid, strongsUrl sid)]" "seen s2 = sid # seen s"
    by simp_all
  with assms(1) caught(3,5) show ?thesis by (auto simp: fetchedOnce_def)
qed

lemma distinct_fst_count:
  "distinct (map fst xs) \<Longrightarrow> length (filter (\<lambda>p. fst p = a) xs) \<le> 1"
proof (induction xs)
  case Nil
  then show ?case by simp
next
  case (Cons x xs)
  show ?case
  proof (cases "fst x = a")
    case True
    with Cons.prems have "a \<notin> fst ` set xs" by auto
    then have "filter (\<lambda>p. fst p = a) xs = []"
      by (auto simp: filter_empty_conv)
    with True show ?thesis by simp
  next
    case False
    with Cons show ?thesis by simp
  qed
qed

lemma filter_conj_le:
  "length (filter (\<lambda>p. P p \<and> Q p) xs) \<le> length (filter P xs)"
  by (induction xs) auto

text \<open>The number of calls of \<open>fetcher.get\<close> that \<open>run\<close> made for the id.\<close>

definition fetchCount :: "'w RunState \<Rightarrow> jsstring \<Rightarrow> nat" where
  "fetchCount s sid = length (filter (\<lambda>p. fst p = sid \<and> snd p = strongsUrl sid) (fetched s))"

text \<open>
  C4: within one run the fetcher is called at most once for the source url of any id, and
  a queue item whose id is already in the visited set is dropped with no fetch and no
  other change of state.
\<close>

theorem C4_each_id_fetched_at_most_once:
  assumes "runState S rootStrong recipe w = Inr final"
  shows "fetchCount final sid \<le> 1
      \<and> (\<forall>s rest depth. q s = (sid, depth) # rest \<and> sid \<in> set (seen s)
            \<and> processed s < maxNodes recipe
          \<longrightarrow> step S recipe s = Some (s\<lparr>q := rest\<rparr>))"
proof
  from assms obtain idx w1 where
    final: "final = runLoop S recipe (initRunState rootStrong idx w1)"
    by (auto simp: runState_def Let_def split: sum.splits)
  have "fetchedOnce (initRunState rootStrong idx w1)"
    by (simp add: fetchedOnce_def initRunState_def)
  then have "fetchedOnce final"
    unfolding final by (rule runLoop_invariant) (rule fetchedOnce_step)
  then have "distinct (map fst (fetched final))"
    by (simp add: fetchedOnce_def)
  then have "length (filter (\<lambda>p. fst p = sid) (fetched final)) \<le> 1"
    by (rule distinct_fst_count)
  moreover have "length (filter (\<lambda>p. fst p = sid \<and> snd p = strongsUrl sid) (fetched final))
      \<le> length (filter (\<lambda>p. fst p = sid) (fetched final))"
    by (rule filter_conj_le)
  ultimately show "fetchCount final sid \<le> 1"
    by (simp add: fetchCount_def)
next
  show "\<forall>s rest depth. q s = (sid, depth) # rest \<and> sid \<in> set (seen s)
            \<and> processed s < maxNodes recipe
          \<longrightarrow> step S recipe s = Some (s\<lparr>q := rest\<rparr>)"
    by (simp add: step_def)
qed

subsection \<open>A small crawl\<close>

text \<open>
  The graph \<open>G1 \<rightarrow> {G2, G3}\<close>, \<open>G2 \<rightarrow> {G3, G4}\<close>; the page of \<open>G3\<close> cannot be fetched.
  The world is the list of the notes written so far.
\<close>

definition graphEntry :: "jsstring \<Rightarrow> jsstring \<Rightarrow> jsstring \<Rightarrow> LexiconEntry" where
  "graphEntry sid url html =
     \<lparr>strong = sid, lang = langFromStrong sid, entryLemma = None, transliteration = None,
      pronunciation = None, phonetic = None, part_of_speech = None,
      source_primary = url, source_alt = [], blocks = Map.empty,
      links = \<lparr>see_also = (if sid = ascii ''G1'' then [ascii ''G2'', ascii ''G3'']
                           else if sid = ascii ''G2'' then [ascii ''G3''] else []),
               related_strongs = (if sid = ascii ''G2'' then [ascii ''G4''] else []),
               topical = [], scripture = []\<rparr>\<rparr>"

definition offline :: exn where
  "offline = \<lparr>message = Some (ascii ''offline''), toString = ascii ''Error: offline''\<rparr>"

definition graphStages :: "jsstring list Stages" where
  "graphStages =
     \<lparr>getMarkdownFiles = (\<lambda>w. []),
      fetcherSetRateLimit = (\<lambda>w ms. w),
      fetcherGet = (\<lambda>w url. (w, if url = strongsUrl (ascii ''G3'') then Inl offline else Inr url)),
      parseEntryFromStrongsPage = (\<lambda>sid url html. Inr (graphEntry sid url html)),
      buildLemmaIndex = (\<lambda>w folder. (w, Inr Map.empty)),
      applyLemmaLinks = (\<lambda>w entry idx recipe. (w, Inr entry)),
      writerUpsert = (\<lambda>w entry recipe. (strong entry # w, Inr (strong entry \<notin> set w))),
      ensureScriptureNote = (\<lambda>w folder r related. (w, None))\<rparr>"

definition graphRecipe :: Recipe where
  "graphRecipe =
     \<lparr>recipeId = ascii ''r'', includeSections = [], followEdges = [SeeAlso, RelatedStrongs],
      linkTypes = [Strongs], linkGreekHebrew = False, lemmaAliasMode = AliasPrimary,
      maxDepth = 2, maxNodes = 10, recipeRateLimitMs = 0, skipExisting = True,
      rootFolder = ascii ''Lexicon'', scriptureRootFolder = ascii ''Scripture'',
      noteTitlePattern = ascii ''{{strong}}''\<rparr>"

definition graphFinal :: "jsstring list RunState" where
  "graphFinal = runLoop graphStages graphRecipe (initRunState (ascii ''G1'') Map.empty [])"

theorem C4_each_id_fetched_at_most_once_witness:
  "runState graphStages (ascii ''G1'') graphRecipe [] = Inr graphFinal
   \<and> map fst (fetched graphFinal) = [ascii ''G1'', ascii ''G2'', ascii ''G3'', ascii ''G4'']
   \<and> enqueued graphFinal
       = [(ascii ''G1'', 0), (ascii ''G2'', 1), (ascii ''G3'', 1), (ascii ''G3'', 2), (ascii ''G4'', 2)]
   \<and> fetchCount graphFinal (ascii ''G3'') \<le> 1
   \<and> step graphStages graphRecipe
         ((initRunState (ascii ''G1'') Map.empty [])\<lparr>seen := [ascii ''G3''], q := [(ascii ''G3'', 2)]\<rparr>)
       = Some ((initRunState (ascii ''G1'') Map.empty [])\<lparr>seen := [ascii ''G3''], q := []\<rparr>)"
proof -
  have r: "runState graphStages (ascii ''G1'') graphRecipe [] = Inr graphFinal"
    by (simp add: runState_def graphFinal_def graphStages_def)
  have f: "map fst (fetched graphFinal) = [ascii ''G1'', ascii ''G2'', ascii ''G3'', ascii ''G4'']"
    unfolding graphFinal_def by code_simp
  have e: "enqueued graphFinal
       = [(ascii ''G1'', 0), (ascii ''G2'', 1), (ascii ''G3'', 1), (ascii ''G3'', 2), (ascii ''G4'', 2)]"
    unfolding graphFinal_def by code_simp
  from C4_each_id_fetched_at_most_once [OF r, of "ascii ''G3''"]
  have c: "fetchCount graphFinal (ascii ''G3'') \<le> 1"
    and d: "\<And>s rest depth. q s = (ascii ''G3'', depth) # rest \<and> ascii ''G3'' \<in> set (seen s)
            \<and> processed s < maxNodes graphRecipe
          \<Longrightarrow> step graphStages graphRecipe s = Some (s\<lparr>q := rest\<rparr>)"
    by blast+
  have "step graphStages graphRecipe
         ((initRunState (ascii ''G1'') Map.empty [])\<lparr>seen := [ascii ''G3''], q := [(ascii ''G3'', 2)]\<rparr>)
       = Some ((initRunState (ascii ''G1'') Map.empty [])\<lparr>seen := [ascii ''G3''], q := [(ascii ''G3'', 2)]\<rparr>
                 \<lparr>q := []\<rparr>)"
    by (rule d) (simp add: initRunState_def graphRecipe_def)
  with r f e c show ?thesis by simp
qed

subsection \<open>The node and depth budgets\<close>

definition withinBudget :: "Recipe \<Rightarrow> jsstring \<Rightarrow> 'w RunState \<Rightarrow> bool" where
  "withinBudget recipe rootStrong s =
     (0 \<le> processed s \<and> processed s \<le> maxNodes recipe
      \<and> int (length (seen s)) = processed s
      \<and> 0 \<le> created (res s) \<and> 0 \<le> updated (res s) \<and> 0 \<le> skipped (res s)
      \<and> created (res s) + updated (res s) + skipped (res s) \<le> processed s
      \<and> skipped (res s) + int (length (errors (res s))) \<le> processed s
      \<and> take 1 (enqueued s) = [(rootStrong, 0)]
      \<and> list_all (\<lambda>item. 0 \<le> snd item \<and> snd item \<le> maxDepth recipe) (enqueued s)
      \<and> set (q s) \<subseteq> set (enqueued s))"

lemma withinBudget_tryNode:
  assumes inv: "withinBudget recipe rootStrong s"
    and qs: "q s = (sid, depth) # rest" and lt: "processed s < maxNodes recipe"
    and t: "tryNode S recipe sid depth (s\<lparr>q := rest, seen := sid # seen s\<rparr>) = (r, s2)"
    and s': "res s' = (res s2)\<lparr>errors := errors (res s2) @ extra\<rparr>" "length extra \<le> 1"
      "processed s' = processed s2 + 1" "seen s' = seen s2" "q s' = q s2" "enqueued s' = enqueued s2"
  shows "withinBudget recipe rootStrong s'"
proof -
  let ?s1 = "s\<lparr>q := rest, seen := sid # seen s\<rparr>"
  from tryNode_effect [of recipe depth ?s1 sid S] t
  have eff: "nodeEffect recipe depth (?s1\<lparr>fetched := fetched ?s1 @ [(sid, strongsUrl sid)]\<rparr>) s2"
    by simp
  then obtain new where new: "q s2 = rest @ new" "enqueued s2 = enqueued s @ new"
      "new \<noteq> [] \<longrightarrow> depth < maxDepth recipe" "snd ` set new \<subseteq> {depth + 1}"
    by (auto simp: nodeEffect_def)
  from inv qs have d0: "0 \<le> depth"
    by (auto simp: withinBudget_def list_all_iff)
  from new(3,4) d0 have "list_all (\<lambda>item. 0 \<le> snd item \<and> snd item \<le> maxDepth recipe) new"
    by (cases "new = []") (auto simp: list_all_iff)
  moreover from inv have "take 1 (enqueued s @ new) = [(rootStrong, 0)]"
    by (cases "enqueued s") (auto simp: withinBudget_def)
  moreover from inv qs have "set (rest @ new) \<subseteq> set (enqueued s @ new)"
    by (auto simp: withinBudget_def)
  moreover from eff have "processed s2 = processed s" "seen s2 = sid # seen s"
      "errors (res s2) = errors (res s)" "skipped (res s2) = skipped (res s)"
      "created (res s) \<le> created (res s2)" "updated (res s) \<le> updated (res s2)"
      "created (res s2) + updated (res s2) \<le> created (res s) + updated (res s) + 1"
    by (simp_all add: nodeEffect_def)
  ultimately show ?thesis
    using inv lt s' new(1,2) by (simp add: withinBudget_def)
qed

lemma withinBudget_step:
  assumes "withinBudget recipe rootStrong s" and "step S recipe s = Some s'"
  shows "withinBudget recipe rootStrong s'"
  using assms(2)
proof (cases rule: step_cases)
  case (discard sid depth rest)
  with assms(1) show ?thesis by (auto simp: withinBudget_def)
next
  case (skip sid depth rest)
  with assms(1) show ?thesis by (auto simp: withinBudget_def)
next
  case (tried sid depth rest s2)
  show ?thesis
    by (rule withinBudget_tryNode [OF assms(1) tried(1,2,4), of _ "[]"]) (simp_all add: tried(5))
next
  case (caught sid depth rest s2 e)
  show ?thesis
    by (rule withinBudget_tryNode [OF assms(1) caught(1,2,4), of _ "[(sid, errorText e)]"])
       (simp_all add: caught(5))
qed

lemma step_enqueues:
  assumes "step S recipe s = Some s'" and "q s = (sid, depth) # rest"
  shows "\<exists>new. enqueued s' = enqueued s @ new \<and> q s' = rest @ new
           \<and> (new \<noteq> [] \<longrightarrow> depth < maxDepth recipe) \<and> snd ` set new \<subseteq> {depth + 1}"
proof -
  have eff: "\<exists>new. enqueued s2 = enqueued s @ new \<and> q s2 = rest @ new
           \<and> (new \<noteq> [] \<longrightarrow> depth < maxDepth recipe) \<and> snd ` set new \<subseteq> {depth + 1}"
    if "tryNode S recipe sid depth (s\<lparr>q := rest, seen := sid # seen s\<rparr>) = (r, s2)" for r s2
    using tryNode_effect [of recipe depth "s\<lparr>q := rest, seen := sid # seen s\<rparr>" sid S] that
    by (auto simp: nodeEffect_def)
  from assms(1) show ?thesis
  proof (cases rule: step_cases)
    case (discard sid' depth' rest')
    with assms(2) show ?thesis by simp
  next
    case (skip sid' depth' rest')
    with assms(2) show ?thesis by simp
  next
    case (tried sid' depth' rest' s2)
    with assms(2) eff [of None s2] show ?thesis by simp
  next
    case (caught sid' depth' rest' s2 e)
    with assms(2) eff [of "Some e" s2] show ?thesis by simp
  qed
qed

text \<open>
  C5: with \<open>maxNodes \<ge> 1\<close> and \<open>maxDepth \<ge> 0\<close>, the number of processed nodes (each of
  which was skipped, or created or updated, or ended in the error list) never exceeds
  \<open>maxNodes\<close>; the seed is enqueued at depth 0 and every item ever enqueued has a depth
  between 0 and \<open>maxDepth\<close>; a turn of the loop for an item at depth \<open>d\<close> enqueues only at
  depth \<open>d + 1\<close>, and only when \<open>d < maxDepth\<close>.
\<close>

theorem C5_budgets_respected:
  assumes "1 \<le> maxNodes recipe" and "0 \<le> maxDepth recipe"
    and "runState S rootStrong recipe w = Inr final"
  shows "processed final \<le> maxNodes recipe
      \<and> int (length (seen final)) = processed final
      \<and> created (res final) + updated (res final) + skipped (res final) \<le> processed final
      \<and> skipped (res final) + int (length (errors (res final))) \<le> processed final
      \<and> take 1 (enqueued final) = [(rootStrong, 0)]
      \<and> (\<forall>item \<in> set (enqueued final). 0 \<le> snd item \<and> snd item \<le> maxDepth recipe)
      \<and> (\<forall>s s' sid depth rest. step S recipe s = Some s' \<and> q s = (sid, depth) # rest \<longrightarrow>
            (\<exists>new. enqueued s' = enqueued s @ new
                \<and> (new \<noteq> [] \<longrightarrow> depth < maxDepth recipe) \<and> snd ` set new \<subseteq> {depth + 1}))"
proof -
  from assms(3) obtain idx w1 where
    final: "final = runLoop S recipe (initRunState rootStrong idx w1)"
    by (auto simp: runState_def Let_def split: sum.splits)
  from assms(1,2) have "withinBudget recipe rootStrong (initRunState rootStrong idx w1)"
    by (simp add: withinBudget_def initRunState_def)
  then have "withinBudget recipe rootStrong final"
    unfolding final by (rule runLoop_invariant) (rule withinBudget_step)
  moreover have "\<forall>s s' sid depth rest. step S recipe s = Some s' \<and> q s = (sid, depth) # rest \<longrightarrow>
            (\<exists>new. enqueued s' = enqueued s @ new
                \<and> (new \<noteq> [] \<longrightarrow> depth < maxDepth recipe) \<and> snd ` set new \<subseteq> {depth + 1})"
    using step_enqueues by blast
  ultimately show ?thesis
    by (simp add: withinBudget_def list_all_iff)
qed

definition tightRecipe :: Recipe where
  "tightRecipe = graphRecipe\<lparr>maxDepth := 1, maxNodes := 2\<rparr>"

definition tightFinal :: "jsstring list RunState" where
  "tightFinal = runLoop graphStages tightRecipe (initRunState (ascii ''G1'') Map.empty [])"

theorem C5_budgets_respected_witness:
  "1 \<le> maxNodes tightRecipe \<and> 0 \<le> maxDepth tightRecipe
   \<and> runState graphStages (ascii ''G1'') tightRecipe [] = Inr tightFinal
   \<and> processed tightFinal = 2 \<and> processed tightFinal \<le> maxNodes tightRecipe
   \<and> seen tightFinal = [ascii ''G2'', ascii ''G1'']
   \<and> res tightFinal = \<lparr>created = 2, updated = 0, skipped = 0, errors = []\<rparr>
   \<and> enqueued tightFinal = [(ascii ''G1'', 0), (ascii ''G2'', 1), (ascii ''G3'', 1)]
   \<and> list_all (\<lambda>item. 0 \<le> snd item \<and> snd item \<le> maxDepth tightRecipe) (enqueued tightFinal)"
proof -
  have a: "1 \<le> maxNodes tightRecipe" and b: "0 \<le> maxDepth tightRecipe"
    by (simp_all add: tightRecipe_def graphRecipe_def)
  have r: "runState graphStages (ascii ''G1'') tightRecipe [] = Inr tightFinal"
    by (simp add: runState_def tightFinal_def graphStages_def)
  have p: "processed tightFinal = 2"
    unfolding tightFinal_def by code_simp
  have s: "seen tightFinal = [ascii ''G2'', ascii ''G1'']"
    unfolding tightFinal_def by code_simp
  have c: "res tightFinal = \<lparr>created = 2, updated = 0, skipped = 0, errors = []\<rparr>"
    unfolding tightFinal_def by code_simp
  have e: "enqueued tightFinal = [(ascii ''G1'', 0), (ascii ''G2'', 1), (ascii ''G3'', 1)]"
    unfolding tightFinal_def by code_simp
  from C5_budgets_respected [OF a b r]
  have "processed tightFinal \<le> maxNodes tightRecipe"
    and "\<forall>item \<in> set (enqueued tightFinal). 0 \<le> snd item \<and> snd item \<le> maxDepth tightRecipe"
    by blast+
  with a b r p s c e show ?thesis
    by (simp add: list_all_iff)
qed

subsection \<open>A failing node does not end the run\<close>





























section \<open>Greek and Hebrew tokens (crawler.ts)\<close>

text \<open>
  The two regular expressions of \<open>extractGreekHebrewTokens\<close> carry the \<open>u\<close> flag: they read
  the string by code points, a surrogate pair being one code point.
\<close>

fun codePoints :: "jsstring \<Rightarrow> nat list" where
  "codePoints (h # l # cs) =
     (if 55296 \<le> h \<and> h < 56320 \<and> 56320 \<le> l \<and> l < 57344
      then (65536 + (h - 55296) * 1024 + (l - 56320)) # codePoints cs
      else h # codePoints (l # cs))"
| "codePoints cs = cs"

definition fromCodePoint :: "nat \<Rightarrow> jsstring" where
  "fromCodePoint c =
     (if c < 65536 then [c] else [55296 + (c - 65536) div 1024, 56320 + (c - 65536) mod 1024])"

definition fromCodePoints :: "nat list \<Rightarrow> jsstring" where
  "fromCodePoints cs = concat (map fromCodePoint cs)"

text \<open>
  \<open>text.match(/[\p{Script=X}]+/gu) ?? []\<close>: the maximal runs of code points of the script,
  from left to right. The script is a predicate on code points: the tables of the
  Unicode Script property belong to the regular expression engine.
\<close>

function runsOf :: "(nat \<Rightarrow> bool) \<Rightarrow> nat list \<Rightarrow> nat list list" where
  "runsOf p [] = []"
| "runsOf p (c # cs) =
     (if p c then takeWhile p (c # cs) # runsOf p (dropWhile p cs) else runsOf p cs)"
  by pat_completeness auto
termination
  by (relation "measure (\<lambda>(p, cs). length cs)") (auto simp: length_dropWhile_le le_imp_less_Suc)

definition extractGreekHebrewTokens :: "(nat \<Rightarrow> bool) \<Rightarrow> (nat \<Rightarrow> bool) \<Rightarrow> jsstring \<Rightarrow> jsstring list" where
  "extractGreekHebrewTokens isGreek isHebrew txt =
     (let greekRuns = map fromCodePoints (runsOf isGreek (codePoints txt));
          hebrewRuns = map fromCodePoints (runsOf isHebrew (codePoints txt))
      in uniq (filter (\<lambda>t. 2 \<le> length t) (greekRuns @ hebrewRuns)))"

text \<open>
  \<open>text.replace(new RegExp(escaped, "g"), link)\<close>: the token is escaped, so the regular
  expression matches the token itself, at every occurrence from left to right.
\<close>

definition replaceTokenWithLink :: "jsstring \<Rightarrow> jsstring \<Rightarrow> jsstring \<Rightarrow> jsstring" where
  "replaceTokenWithLink s token link =
     replaceGlobal (literally token) (\<lambda>m b a. substitute m b a link) [] s"

definition joinWith :: "jsstring \<Rightarrow> jsstring list \<Rightarrow> jsstring" where
  "joinWith sep xs = (case xs of [] \<Rightarrow> [] | x # r \<Rightarrow> x @ concat (map (\<lambda>y. sep @ y) r))"

text \<open>The keys of \<open>blocks\<close> in the order the parser inserts them.\<close>

definition sectionKeys :: "SectionKey list" where
  "sectionKeys = [lexical_summary, strongs_definition, helps, thayers, forms_transliterations,
                  englishmans_concordance, concordance, topical_lexicon]"

definition blockValues :: "(SectionKey \<rightharpoonup> jsstring) \<Rightarrow> jsstring list" where
  "blockValues b = concat (map (\<lambda>k. case b k of None \<Rightarrow> [] | Some v \<Rightarrow> [v]) sectionKeys)"

text \<open>
  The tokens \<open>applyLemmaLinks\<close> looks up, and the blocks after its first loop: a token the
  lemma index resolves is linked in every non-empty block.
\<close>

definition lemmaTokens :: "(nat \<Rightarrow> bool) \<Rightarrow> (nat \<Rightarrow> bool) \<Rightarrow> LexiconEntry \<Rightarrow> jsstring list" where
  "lemmaTokens isGreek isHebrew entry =
     extractGreekHebrewTokens isGreek isHebrew (joinWith [10] (blockValues (blocks entry)))"

definition linkToken :: "jsstring \<Rightarrow> (SectionKey \<rightharpoonup> jsstring) \<Rightarrow> (SectionKey \<rightharpoonup> jsstring)" where
  "linkToken token b =
     (\<lambda>k. case b k of
             None \<Rightarrow> None
           | Some v \<Rightarrow> if v = [] then Some v else Some (replaceTokenWithLink v token (wikilink token)))"

definition linkedBlocks :: "(nat \<Rightarrow> bool) \<Rightarrow> (nat \<Rightarrow> bool) \<Rightarrow> (jsstring \<rightharpoonup> jsstring) \<Rightarrow> LexiconEntry
    \<Rightarrow> (SectionKey \<rightharpoonup> jsstring)" where
  "linkedBlocks isGreek isHebrew idx entry =
     foldl (\<lambda>b token. if truthy (idx token) then linkToken token b else b)
       (blocks entry) (lemmaTokens isGreek isHebrew entry)"

text \<open>The claim's words: a contiguous run of characters of a script, not part of a longer one.\<close>

definition isRun :: "(nat \<Rightarrow> bool) \<Rightarrow> nat list \<Rightarrow> nat list \<Rightarrow> bool" where
  "isRun p cs r =
     (r \<noteq> [] \<and> list_all p r
      \<and> (\<exists>pre post. cs = pre @ r @ post \<and> (pre = [] \<or> \<not> p (last pre))
             \<and> (post = [] \<or> \<not> p (hd post))))"

lemma takeWhile_run:
  assumes "list_all p r" and "post = [] \<or> \<not> p (hd post)"
  shows "takeWhile p (r @ post) = r"
  using assms by (cases post) (auto simp: list_all_iff takeWhile_append2)

lemma runsOf_sound:
  "r \<in> set (runsOf p cs) \<Longrightarrow> isRun p cs r"
proof (induction p cs rule: runsOf.induct)
  case (1 p)
  then show ?case by simp
next
  case (2 p c cs)
  show ?case
  proof (cases "p c")
    case False
    with 2 have "isRun p cs r" by simp
    then obtain pre post where r: "r \<noteq> []" "list_all p r" "cs = pre @ r @ post"
        "pre = [] \<or> \<not> p (last pre)" "post = [] \<or> \<not> p (hd post)"
      by (auto simp: isRun_def)
    from r(3,4) False have "c # cs = (c # pre) @ r @ post" "\<not> p (last (c # pre))"
      by auto
    with r(1,2,5) show ?thesis
      unfolding isRun_def by blast
  next
    case True
    show ?thesis
    proof (cases "r = takeWhile p (c # cs)")
      case first: True
      have "c # cs = [] @ takeWhile p (c # cs) @ dropWhile p (c # cs)" by simp
      moreover have "dropWhile p (c # cs) = [] \<or> \<not> p (hd (dropWhile p (c # cs)))"
        using hd_dropWhile [of p "c # cs"] by blast
      moreover have "list_all p (takeWhile p (c # cs))"
        by (auto simp: list_all_iff dest: set_takeWhileD)
      moreover from True have "takeWhile p (c # cs) \<noteq> []" by simp
      ultimately show ?thesis
        unfolding isRun_def first by blast
    next
      case False
      with 2 True have "isRun p (dropWhile p cs) r" by simp
      then obtain pre post where r: "r \<noteq> []" "list_all p r" "dropWhile p cs = pre @ r @ post"
          "pre = [] \<or> \<not> p (last pre)" "post = [] \<or> \<not> p (hd post)"
        by (auto simp: isRun_def)
      have "pre \<noteq> []"
      proof
        assume "pre = []"
        with r(1,3) have "dropWhile p cs \<noteq> []" "hd (dropWhile p cs) = hd r" by auto
        moreover from r(1,2) have "p (hd r)" by (cases r) auto
        ultimately show False using hd_dropWhile [of p cs] by simp
      qed
      with r(4) have "\<not> p (last ((c # takeWhile p cs) @ pre))" by simp
      moreover from r(3) have "c # cs = ((c # takeWhile p cs) @ pre) @ r @ post"
        using takeWhile_dropWhile_id [of p cs] by (metis append.assoc append_Cons)
      ultimately show ?thesis
        using r(1,2,5) unfolding isRun_def by blast
    qed
  qed
qed

lemma runsOf_complete:
  "isRun p cs r \<Longrightarrow> r \<in> set (runsOf p cs)"
proof (induction p cs rule: runsOf.induct)
  case (1 p)
  then show ?case by (auto simp: isRun_def)
next
  case (2 p c cs)
  from "2.prems" obtain pre post where r: "r \<noteq> []" "list_all p r" "c # cs = pre @ r @ post"
      "pre = [] \<or> \<not> p (last pre)" "post = [] \<or> \<not> p (hd post)"
    by (auto simp: isRun_def)
  from r(1,2) have hr: "p (hd r)" by (cases r) auto
  show ?case
  proof (cases "p c")
    case False
    have "pre \<noteq> []"
    proof
      assume "pre = []"
      with r(1,3) have "hd r = c" by (cases r) auto
      with hr False show False by simp
    qed
    with r(3) obtain pre' where pre: "pre = c # pre'"
      by (cases pre) auto
    with r(3,4) have "cs = pre' @ r @ post" "pre' = [] \<or> \<not> p (last pre')"
      by (auto split: if_splits)
    with r(1,2,5) have "isRun p cs r"
      unfolding isRun_def by blast
    with 2 False show ?thesis by simp
  next
    case True
    show ?thesis
    proof (cases "pre = []")
      case e: True
      with r(3) have "takeWhile p (c # cs) = takeWhile p (r @ post)" by simp
      also have "\<dots> = r" using r(2,5) by (rule takeWhile_run)
      finally show ?thesis using True by simp
    next
      case False
      with r(4) have np: "\<not> p (last pre)" by simp
      from False have "last pre \<in> set pre" by simp
      with np have ex: "\<exists>x \<in> set pre. \<not> p x" by blast
      from r(3) True have "dropWhile p cs = dropWhile p (pre @ r @ post)"
        by (metis dropWhile.simps(2))
      also from ex have "\<dots> = dropWhile p pre @ r @ post"
        by (metis dropWhile_append1)
      finally have d: "dropWhile p cs = dropWhile p pre @ r @ post" .
      from ex have ne: "dropWhile p pre \<noteq> []"
        by (simp add: dropWhile_eq_Nil_conv)
      have "last (dropWhile p pre) = last pre"
        using ne by (metis last_appendR takeWhile_dropWhile_id)
      with np d ne r(1,2,5) have "isRun p (dropWhile p cs) r"
        unfolding isRun_def by metis
      with 2 True show ?thesis by simp
    qed
  qed
qed

lemma set_runsOf: "set (runsOf p cs) = {r. isRun p cs r}"
  using runsOf_sound runsOf_complete by blast


lemma set_uniq [simp]: "set (uniq xs) = set xs"
  by (simp add: uniq_def)

lemma distinct_uniq [simp]: "distinct (uniq xs)"
  by (simp add: uniq_def)

subsection \<open>A Greek entry that quotes a Hebrew word\<close>

text \<open>
  The letters \<open>\<alpha>\<close> to \<open>\<omega>\<close> (U+03B1 to U+03C9) and alef to tav (U+05D0 to U+05EA), which
  the Unicode tables give the scripts Greek and Hebrew.
\<close>

definition greekLetter :: "nat \<Rightarrow> bool" where
  "greekLetter c = (945 \<le> c \<and> c \<le> 969)"

definition hebrewLetter :: "nat \<Rightarrow> bool" where
  "hebrewLetter c = (1488 \<le> c \<and> c \<le> 1514)"

definition quotingEntry :: LexiconEntry where
  "quotingEntry =
     \<lparr>strong = ascii ''G1'', lang = langFromStrong (ascii ''G1''), entryLemma = None,
      transliteration = None, pronunciation = None, phonetic = None, part_of_speech = None,
      source_primary = strongsUrl (ascii ''G1''), source_alt = [],
      blocks = [helps \<mapsto> ascii ''see '' @ [1488, 1489]],
      links = \<lparr>see_also = [], related_strongs = [], topical = [], scripture = []\<rparr>\<rparr>"

text \<open>
  C8, as stated, fails on the code: the function takes the runs of both scripts whatever
  the language of the entry. In an entry of the Greek lexicon, a Hebrew word of two
  letters is a token, is looked up in the lemma index and is rewritten into a link.
\<close>

theorem C8_other_script_counterexample:
  "lang quotingEntry = greek
   \<and> lemmaTokens greekLetter hebrewLetter quotingEntry = [[1488, 1489]]
   \<and> list_all hebrewLetter [1488, 1489] \<and> \<not> list_ex greekLetter [1488, 1489]
   \<and> linkedBlocks greekLetter hebrewLetter [[1488, 1489] \<mapsto> ascii ''H1''] quotingEntry helps
       = Some (ascii ''see [['' @ [1488, 1489] @ ascii '']]'')"
  by (simp add: quotingEntry_def langFromStrong_def lemmaTokens_def linkedBlocks_def
      extractGreekHebrewTokens_def blockValues_def sectionKeys_def joinWith_def ascii_def
      greekLetter_def hebrewLetter_def uniq_def linkToken_def truthy_def wikilink_def
      fromCodePoints_def fromCodePoint_def replaceTokenWithLink_def literally_def lastOpt_def)

text \<open>
  C8, amended: the tokens looked up in the lemma index are exactly the maximal contiguous
  runs of Greek-script code points and the maximal contiguous runs of Hebrew-script code
  points of the joined section text, both scripts whatever the language of the entry,
  whose length in UTF-16 code units is at least 2; each is listed once.
\<close>

theorem C8_tokens_are_runs_of_both_scripts:
  "set (lemmaTokens isGreek isHebrew entry)
     = {fromCodePoints r | r.
          (isRun isGreek (codePoints (joinWith [10] (blockValues (blocks entry)))) r
           \<or> isRun isHebrew (codePoints (joinWith [10] (blockValues (blocks entry)))) r)
          \<and> 2 \<le> length (fromCodePoints r)}
   \<and> distinct (lemmaTokens isGreek isHebrew entry)"
  by (auto simp: lemmaTokens_def extractGreekHebrewTokens_def Let_def set_runsOf)

section \<open>Writer (writer.ts)\<close>

definition keyName :: "SectionKey \<Rightarrow> jsstring" where
  "keyName k = (case k of
       lexical_summary \<Rightarrow> ascii ''lexical_summary''
     | strongs_definition \<Rightarrow> ascii ''strongs_definition''
     | helps \<Rightarrow> ascii ''helps''
     | thayers \<Rightarrow> ascii ''thayers''
     | forms_transliterations \<Rightarrow> ascii ''forms_transliterations''
     | englishmans_concordance \<Rightarrow> ascii ''englishmans_concordance''
     | concordance \<Rightarrow> ascii ''concordance''
     | topical_lexicon \<Rightarrow> ascii ''topical_lexicon'')"

definition sectionTitles :: "SectionKey \<Rightarrow> jsstring" where
  "sectionTitles k = (case k of
       lexical_summary \<Rightarrow> ascii ''Lexical Summary''
     | strongs_definition \<Rightarrow> ascii ''Strong'' @ [39] @ ascii ''s Definition''
     | helps \<Rightarrow> ascii ''HELPS Word-studies''
     | thayers \<Rightarrow> ascii ''Thayer'' @ [39] @ ascii ''s Lexicon''
     | forms_transliterations \<Rightarrow> ascii ''Forms & Transliterations''
     | englishmans_concordance \<Rightarrow> ascii ''Englishman'' @ [39] @ ascii ''s Concordance''
     | concordance \<Rightarrow> ascii ''Concordance''
     | topical_lexicon \<Rightarrow> ascii ''Topical Lexicon'')"

definition sectionOrder :: "SectionKey list" where
  "sectionOrder = [lexical_summary, strongs_definition, helps, thayers, forms_transliterations,
                   englishmans_concordance, concordance, topical_lexicon]"

text \<open>A missing optional string, read with \<open>?? ""\<close>.\<close>

definition orEmpty :: "jsstring option \<Rightarrow> jsstring" where
  "orEmpty v = (case v of None \<Rightarrow> [] | Some s \<Rightarrow> s)"

text \<open>
  \<open>safeFileName\<close> (normalize.ts). The replacement text of the first \<open>replace\<close> is, in the
  source file, the three characters U+00E2, U+20AC and U+201D.
\<close>

definition whitespaceRun :: matcher where
  "whitespaceRun prev rest =
     (case takeWhile isSpace rest of [] \<Rightarrow> None | c # cs \<Rightarrow> Some (length (c # cs)))"

definition safeFileName :: "jsstring \<Rightarrow> jsstring" where
  "safeFileName name =
     trim (replaceGlobal whitespaceRun (\<lambda>m b a. [32]) []
       (concat (map (\<lambda>c. if c \<in> set [92, 47, 58, 42, 63, 34, 60, 62, 124]
                          then [226, 8364, 8221] else [c]) name)))"

definition buildTitle :: "LexiconEntry \<Rightarrow> Recipe \<Rightarrow> jsstring" where
  "buildTitle entry recipe =
     trim (safeFileName
       (replaceAll
         (replaceAll
           (replaceAll
             (replaceAll (noteTitlePattern recipe) (ascii ''{{strong}}'') (strong entry))
             (ascii ''{{lemma}}'') (orEmpty (entryLemma entry)))
           (ascii ''{{transliteration}}'') (orEmpty (transliteration entry)))
         (ascii ''{{short_definition}}'') []))"

text \<open>\<open>normalizePath\<close> is Obsidian's; the functions that call it take it as \<open>np\<close>.\<close>

definition filePath :: "(jsstring \<Rightarrow> jsstring) \<Rightarrow> jsstring \<Rightarrow> Recipe \<Rightarrow> jsstring" where
  "filePath np title recipe = np (stripSlashes (rootFolder recipe) @ ascii ''/'' @ title @ ascii ''.md'')"

text \<open>
  The vault: the text of every file by path, the folders, and the paths at which the
  store rejects a write.
\<close>

record Vault =
  files :: "jsstring \<rightharpoonup> jsstring"
  folders :: "jsstring list"
  rejects :: "jsstring \<Rightarrow> bool"

definition storeError :: exn where
  "storeError = \<lparr>message = Some (ascii ''write rejected''), toString = ascii ''Error: write rejected''\<rparr>"

definition vaultExists :: "Vault \<Rightarrow> jsstring \<Rightarrow> bool" where
  "vaultExists v p = (files v p \<noteq> None \<or> p \<in> set (folders v))"

definition createFolder :: "Vault \<Rightarrow> jsstring \<Rightarrow> exn + Vault" where
  "createFolder v p =
     (if vaultExists v p \<or> rejects v p then Inl storeError else Inr (v\<lparr>folders := p # folders v\<rparr>))"

definition vaultCreate :: "Vault \<Rightarrow> jsstring \<Rightarrow> jsstring \<Rightarrow> exn + Vault" where
  "vaultCreate v p content =
     (if vaultExists v p \<or> rejects v p then Inl storeError
      else Inr (v\<lparr>files := (files v)(p \<mapsto> content)\<rparr>))"

definition vaultModify :: "Vault \<Rightarrow> jsstring \<Rightarrow> jsstring \<Rightarrow> exn + Vault" where
  "vaultModify v p content =
     (if files v p = None \<or> rejects v p then Inl storeError
      else Inr (v\<lparr>files := (files v)(p \<mapsto> content)\<rparr>))"

definition ensureFolder :: "(jsstring \<Rightarrow> jsstring) \<Rightarrow> Recipe \<Rightarrow> Vault \<Rightarrow> exn + Vault" where
  "ensureFolder np recipe v =
     (let folder = np (stripSlashes (rootFolder recipe))
      in if \<not> vaultExists v folder then createFolder v folder else Inr v)"

definition renderSection :: "jsstring \<Rightarrow> jsstring \<Rightarrow> jsstring option \<Rightarrow> jsstring list" where
  "renderSection title key content =
     [ascii ''## '' @ title,
      ascii ''<!-- imported: '' @ key @ ascii '' -->'',
      trim (orEmpty content),
      [],
      ascii ''---'',
      []]"

text \<open>\<open>/\n##\s+/\<close> matches at the start of the string.\<close>

definition headingAt :: "jsstring \<Rightarrow> bool" where
  "headingAt s = (prefix [10, 35, 35] s \<and> (case drop 3 s of [] \<Rightarrow> False | c # _ \<Rightarrow> isSpace c))"

definition markerOf :: "jsstring \<Rightarrow> jsstring" where
  "markerOf key = ascii ''<!-- imported: '' @ key @ ascii '' -->''"

definition replaceImportedBlock :: "jsstring \<Rightarrow> jsstring \<Rightarrow> jsstring \<Rightarrow> jsstring" where
  "replaceImportedBlock doc key replacement =
     (let marker = markerOf key
      in case indexOf doc marker of
           None \<Rightarrow> doc
         | Some idx \<Rightarrow>
             (let afterMarker = idx + length marker;
                  rest = drop afterMarker doc;
                  nextHeading = findFirst headingAt rest;
                  nextMarker = indexOf rest (10 # ascii ''<!-- imported:'');
                  endRel = (case nextHeading of
                              Some h \<Rightarrow> (case nextMarker of Some m \<Rightarrow> min h m | None \<Rightarrow> h)
                            | None \<Rightarrow> (case nextMarker of Some m \<Rightarrow> m | None \<Rightarrow> length rest));
                  end = afterMarker + endRel
              in take afterMarker doc @ [10]
                   @ (if trim replacement \<noteq> [] then trim replacement @ [10] else [10])
                   @ drop end doc))"

text \<open>The loop of \<open>mergeIntoFile\<close> over the included sections.\<close>

definition mergeText :: "LexiconEntry \<Rightarrow> Recipe \<Rightarrow> jsstring \<Rightarrow> jsstring" where
  "mergeText entry recipe original =
     foldl (\<lambda>t section. replaceImportedBlock t (keyName section) (orEmpty (blocks entry section)))
       original (includeSections recipe)"

definition mergeIntoFile :: "jsstring \<Rightarrow> LexiconEntry \<Rightarrow> Recipe \<Rightarrow> Vault \<Rightarrow> exn + Vault" where
  "mergeIntoFile file entry recipe v =
     (case files v file of
        None \<Rightarrow> Inl storeError
      | Some original \<Rightarrow> vaultModify v file (mergeText entry recipe original))"

text \<open>
  The regular expression of \<open>linkifyScriptureRefs\<close>: the escaped display text between two
  \<open>\b\<close>.
\<close>

definition wholeWord :: "jsstring \<Rightarrow> matcher" where
  "wholeWord pat prev rest =
     (if prefix pat rest \<and> wordBoundary prev rest
         \<and> wordBoundary (if pat = [] then prev else Some (last pat)) (drop (length pat) rest)
      then Some (length pat) else None)"


definition linkifyScriptureRefs :: "jsstring \<Rightarrow> ScriptureRef list \<Rightarrow> jsstring" where
  "linkifyScriptureRefs txt refs =
     foldl (\<lambda>out r. if display r = [] then out
                     else replaceGlobal (wholeWord (display r))
                            (\<lambda>m b a. substitute m b a (wikilink (display r))) [] out)
       txt refs"

text \<open>
  \<open>w.charAt(0).toUpperCase() + w.slice(1)\<close> for a word whose first code unit is of
  ASCII, as in the book slugs the parser extracts (\<open>[a-z0-9_]+\<close>). On another first code
  unit \<open>toUpperCase\<close> follows the Unicode tables of the engine and may give more than one
  code unit; \<open>capitalize\<close> leaves such a code unit as it is and does not stand for the
  source there.
\<close>

definition capitalize :: "jsstring \<Rightarrow> jsstring" where
  "capitalize w = (case w of [] \<Rightarrow> [] | c # r \<Rightarrow> upperAscii c # r)"

definition scriptureLinkPath :: "Recipe \<Rightarrow> ScriptureRef \<Rightarrow> jsstring" where
  "scriptureLinkPath recipe r =
     (let book = joinWith [32] (map capitalize (splitOn 95 (slug r)));
          folder = stripSlashes (scriptureRootFolder recipe)
      in folder @ ascii ''/'' @ book @ ascii ''/'' @ showInt (chapterNo r) @ ascii ''-''
           @ showInt (verseNo r))"

text \<open>
  \<open>renderNew\<close>. \<open>today\<close> is \<open>new Date().toISOString().slice(0, 10)\<close>. No entry of this
  program carries the untyped property \<open>relatedStrongTitles\<close>, so \<open>links_related\<close> is made
  from \<open>related_strongs\<close>.
\<close>

definition quoted :: "jsstring \<Rightarrow> jsstring" where
  "quoted l = ascii ''  - '' @ [34] @ l @ [34]"

definition renderNew :: "jsstring \<Rightarrow> LexiconEntry \<Rightarrow> Recipe \<Rightarrow> jsstring" where
  "renderNew today entry recipe =
     (let links_see_also = map wikilink (see_also (links entry));
          links_related = map wikilink (related_strongs (links entry));
          links_topical = map wikilink (topical (links entry));
          links_scripture = map (\<lambda>r. ascii ''[['' @ scriptureLinkPath recipe r @ ascii ''|''
                                         @ display r @ ascii '']]'') (scripture (links entry));
          yaml = joinWith [10]
            ([ascii ''---'',
              ascii ''type: lexicon/strongs'',
              ascii ''lang: '' @ langName (lang entry),
              ascii ''strong: '' @ strong entry,
              [],
              ascii ''lemma: '' @ orEmpty (entryLemma entry),
              ascii ''transliteration: '' @ orEmpty (transliteration entry),
              ascii ''pronunciation: '' @ orEmpty (pronunciation entry),
              ascii ''phonetic: '' @ orEmpty (phonetic entry),
              ascii ''part_of_speech: '' @ orEmpty (part_of_speech entry),
              [],
              ascii ''aliases:'',
              ascii ''  - '' @ strong entry]
             @ (if truthy (transliteration entry)
                then [ascii ''  - '' @ orEmpty (transliteration entry)] else [])
             @ [[],
                ascii ''source_primary: '' @ source_primary entry,
                ascii ''source_alt:'']
             @ map (\<lambda>u. ascii ''  - '' @ u) (source_alt entry)
             @ [[],
                ascii ''imported_at: '' @ today,
                ascii ''import_recipe: '' @ recipeId recipe,
                [],
                ascii ''sections_included:'']
             @ map (\<lambda>k. ascii ''  - '' @ keyName k) (includeSections recipe)
             @ [[],
                ascii ''links_see_also:'']
             @ map quoted links_see_also
             @ [ascii ''links_related_strongs:'']
             @ map quoted links_related
             @ [ascii ''links_topical:'']
             @ map quoted links_topical
             @ [ascii ''links_scripture:'']
             @ map quoted links_scripture
             @ [[],
                ascii ''crawl_depth: '' @ showInt (maxDepth recipe),
                ascii ''crawl_root: '' @ strong entry,
                ascii ''---'',
                []]);
          titleLine = trim (ascii ''# '' @ strong entry @ [32, 8212, 32] @ orEmpty (entryLemma entry)
                            @ ascii '' ('' @ orEmpty (transliteration entry) @ ascii '')'');
          blocks1 = (if Scripture \<in> set (linkTypes recipe) \<and> links_scripture \<noteq> []
                     then (\<lambda>k. case blocks entry k of
                                  None \<Rightarrow> None
                                | Some b \<Rightarrow> if b = [] then Some b
                                            else Some (linkifyScriptureRefs b (scripture (links entry))))
                     else blocks entry);
          sections = concat (map (\<lambda>k. renderSection (sectionTitles k) (keyName k) (blocks1 k))
                               (filter (\<lambda>k. k \<in> set (includeSections recipe)) sectionOrder));
          body = joinWith [10]
            ([titleLine,
              [],
              ascii ''> **Part of Speech:** '' @ orEmpty (part_of_speech entry) @ ascii ''  '',
              ascii ''> **Pronunciation:** '' @ orEmpty (pronunciation entry) @ ascii ''  '',
              ascii ''> **Primary source:** '' @ source_primary entry,
              [],
              ascii ''---'',
              []]
             @ sections
             @ [[],
                ascii ''---'',
                [],
                ascii ''## Outbound Links'',
                [],
                ascii ''**See also (direct Strong'' @ [39] @ ascii ''s cross-refs):**  '',
                joinWith (ascii '', '') links_see_also,
                [],
                ascii ''**Related Strong'' @ [39] @ ascii ''s (lexical / semantic):**  '',
                joinWith (ascii '', '') links_related,
                [],
                ascii ''**Topical connections:**  '',
                joinWith (ascii '', '') links_topical,
                [],
                ascii ''**Scripture references:**  '',
                (if Scripture \<in> set (linkTypes recipe) then joinWith (ascii '', '') links_scripture else []),
                []])
      in yaml @ body)"

text \<open>
  \<open>upsert\<close>: the new vault and either the thrown value or \<open>created\<close>. The file found by
  \<open>getAbstractFileByPath\<close> is a \<open>TFile\<close> when the path holds a file.
\<close>

definition upsert :: "(jsstring \<Rightarrow> jsstring) \<Rightarrow> jsstring \<Rightarrow> LexiconEntry \<Rightarrow> Recipe \<Rightarrow> Vault
    \<Rightarrow> Vault \<times> (exn + bool)" where
  "upsert np today entry recipe v =
     (case ensureFolder np recipe v of
        Inl e \<Rightarrow> (v, Inl e)
      | Inr v1 \<Rightarrow>
          (let title = buildTitle entry recipe;
               file = filePath np title recipe
           in if files v1 file \<noteq> None
              then (case mergeIntoFile file entry recipe v1 of
                      Inl e \<Rightarrow> (v1, Inl e)
                    | Inr v2 \<Rightarrow> (v2, Inr False))
              else (case vaultCreate v1 file (renderNew today entry recipe) of
                      Inl e \<Rightarrow> (v1, Inl e)
                    | Inr v2 \<Rightarrow> (v2, Inr True))))"

text \<open>The \<open>normalizePath\<close> of the test mock: backslashes become slashes, runs of slashes one.\<close>

definition slashRun :: matcher where
  "slashRun prev rest =
     (case takeWhile (\<lambda>c. c = 47) rest of [] \<Rightarrow> None | c # cs \<Rightarrow> Some (length (c # cs)))"

definition normalizePathMock :: "jsstring \<Rightarrow> jsstring" where
  "normalizePathMock p =
     replaceGlobal slashRun (\<lambda>m b a. [47]) [] (map (\<lambda>c. if c = 92 then 47 else c) p)"

subsection \<open>An entry with a verse reference\<close>

definition john316 :: ScriptureRef where
  "john316 =
     \<lparr>slug = ascii ''john'', chapterNo = 3, verseNo = 16, display = ascii ''John 3:16'',
      interlinearUrl = ascii ''https://biblehub.com/interlinear/john/3-16.htm'',
      nasbUrl = ascii ''https://biblehub.com/nasb/john/3-16.htm''\<rparr>"

definition agapeEntry :: LexiconEntry where
  "agapeEntry =
     \<lparr>strong = ascii ''G26'', lang = greek, entryLemma = None,
      transliteration = Some (ascii ''agape''), pronunciation = None, phonetic = None,
      part_of_speech = None,
      source_primary = ascii ''https://biblehub.com/strongs/greek/26.htm'', source_alt = [],
      blocks = [strongs_definition \<mapsto> ascii ''love, as in John 3:16''],
      links = \<lparr>see_also = [], related_strongs = [], topical = [], scripture = [john316]\<rparr>\<rparr>"

definition agapeRecipe :: Recipe where
  "agapeRecipe =
     \<lparr>recipeId = ascii ''r1'', includeSections = [strongs_definition],
      followEdges = [SeeAlso], linkTypes = [Strongs, Scripture], linkGreekHebrew = False,
      lemmaAliasMode = AliasPrimary, maxDepth = 2, maxNodes = 10, recipeRateLimitMs = 0,
      skipExisting = False, rootFolder = ascii ''Lexicon'', scriptureRootFolder = ascii ''Scripture'',
      noteTitlePattern = ascii ''{{strong}}''\<rparr>"

definition emptyVault :: Vault where
  "emptyVault = \<lparr>files = Map.empty, folders = [], rejects = (\<lambda>p. False)\<rparr>"

subsection \<open>Searching\<close>

lemma findFirst_SomeD:
  "findFirst P s = Some i \<Longrightarrow> i \<le> length s \<and> P (drop i s) \<and> (\<forall>j < i. \<not> P (drop j s))"
proof (induction s arbitrary: i)
  case Nil
  then show ?case by (simp split: if_splits)
next
  case (Cons x xs)
  show ?case
  proof (cases "P (x # xs)")
    case True
    with Cons.prems show ?thesis by simp
  next
    case False
    with Cons.prems obtain i' where i': "findFirst P xs = Some i'" "i = Suc i'"
      by auto
    from Cons.IH [OF i'(1)] have "i' \<le> length xs" "P (drop i' xs)" "\<forall>j < i'. \<not> P (drop j xs)"
      by simp_all
    with False i'(2) show ?thesis
      by (auto simp: less_Suc_eq_0_disj)
  qed
qed

lemma findFirst_NoneD:
  "findFirst P s = None \<Longrightarrow> j \<le> length s \<Longrightarrow> \<not> P (drop j s)"
proof (induction s arbitrary: j)
  case Nil
  then show ?case by (simp split: if_splits)
next
  case (Cons x xs)
  then show ?case
    by (cases j) (auto split: if_splits)
qed

lemma indexOf_SomeD:
  assumes "indexOf s pat = Some i"
  shows "i + length pat \<le> length s" and "take (length pat) (drop i s) = pat"
    and "\<forall>j < i. \<not> prefix pat (drop j s)"
proof -
  from assms have p: "i \<le> length s" "prefix pat (drop i s)" "\<forall>j < i. \<not> prefix pat (drop j s)"
    using findFirst_SomeD [of "prefix pat" s i] by (simp_all add: indexOf_def)
  from p(2) obtain r where r: "drop i s = pat @ r" by (auto simp: prefix_def)
  then have "length (drop i s) = length pat + length r" by simp
  with p(1) show "i + length pat \<le> length s" by simp
  from r show "take (length pat) (drop i s) = pat" by simp
  from p(3) show "\<forall>j < i. \<not> prefix pat (drop j s)" .
qed

lemma includesStr_occurrence:
  assumes "prefix pat (drop j s)" and "j \<le> length s"
  shows "includesStr s pat"
  using assms findFirst_NoneD [of "prefix pat" s j]
  by (auto simp: includesStr_def indexOf_def)

subsection \<open>What a merge leaves alone\<close>

text \<open>
  The two positions \<open>replaceImportedBlock\<close> computes in a document: \<open>afterMarker\<close>, the end
  of the first marker of the section, and \<open>end\<close>, the next heading or marker line, or the
  end of the document. The text between them is the span it owns.
\<close>

definition blockSpan :: "jsstring \<Rightarrow> jsstring \<Rightarrow> (nat \<times> nat) option" where
  "blockSpan doc key =
     (case indexOf doc (markerOf key) of
        None \<Rightarrow> None
      | Some idx \<Rightarrow>
          (let afterMarker = idx + length (markerOf key);
               rest = drop afterMarker doc;
               nextHeading = findFirst headingAt rest;
               nextMarker = indexOf rest (10 # ascii ''<!-- imported:'');
               endRel = (case nextHeading of
                           Some h \<Rightarrow> (case nextMarker of Some m \<Rightarrow> min h m | None \<Rightarrow> h)
                         | None \<Rightarrow> (case nextMarker of Some m \<Rightarrow> m | None \<Rightarrow> length rest))
           in Some (afterMarker, afterMarker + endRel)))"

text \<open>What the merge writes between the two positions.\<close>

definition written :: "jsstring \<Rightarrow> jsstring" where
  "written replacement =
     [10] @ (if trim replacement \<noteq> [] then trim replacement @ [10] else [10])"

lemma replaceImportedBlock_span:
  "replaceImportedBlock doc key r =
     (case blockSpan doc key of
        None \<Rightarrow> doc
      | Some (a, e) \<Rightarrow> take a doc @ written r @ drop e doc)"
  by (simp add: replaceImportedBlock_def blockSpan_def written_def Let_def split: option.split)

lemma blockSpan_bounds:
  assumes "blockSpan doc key = Some (a, e)"
  shows "\<exists>idx. indexOf doc (markerOf key) = Some idx \<and> a = idx + length (markerOf key)"
    and "a \<le> e" and "e \<le> length doc"
proof -
  from assms obtain idx where idx: "indexOf doc (markerOf key) = Some idx"
    by (auto simp: blockSpan_def split: option.splits)
  define rest where "rest = drop (idx + length (markerOf key)) doc"
  define endRel where "endRel = (case findFirst headingAt rest of
                           Some h \<Rightarrow> (case indexOf rest (10 # ascii ''<!-- imported:'') of
                                        Some m \<Rightarrow> min h m | None \<Rightarrow> h)
                         | None \<Rightarrow> (case indexOf rest (10 # ascii ''<!-- imported:'') of
                                      Some m \<Rightarrow> m | None \<Rightarrow> length rest))"
  have ae: "a = idx + length (markerOf key)" "e = a + endRel"
    using assms idx unfolding blockSpan_def Let_def rest_def endRel_def by auto
  have "endRel \<le> length rest"
    using findFirst_SomeD [of headingAt rest]
      findFirst_SomeD [of "prefix (10 # ascii ''<!-- imported:'')" rest]
    by (auto simp: endRel_def indexOf_def split: option.splits)
  moreover from indexOf_SomeD(1) [OF idx] have "length rest = length doc - a"
    by (simp add: rest_def ae)
  moreover from indexOf_SomeD(1) [OF idx] have "a \<le> length doc"
    by (simp add: ae)
  ultimately show "a \<le> e" and "e \<le> length doc"
    using ae by simp_all
  from idx ae show "\<exists>idx. indexOf doc (markerOf key) = Some idx \<and> a = idx + length (markerOf key)"
    by simp
qed

lemma replaceImportedBlock_keeps_prefix:
  assumes "prefix h doc" and "\<not> includesStr h (markerOf key)"
  shows "prefix h (replaceImportedBlock doc key r)"
proof (cases "blockSpan doc key")
  case None
  with assms(1) show ?thesis by (simp add: replaceImportedBlock_span)
next
  case (Some ae)
  obtain a e where ae: "ae = (a, e)" by (cases ae)
  from blockSpan_bounds(1) [OF Some [unfolded ae]] obtain idx where
    idx: "indexOf doc (markerOf key) = Some idx" "a = idx + length (markerOf key)"
    by blast
  have "length h \<le> a"
  proof (rule ccontr)
    assume "\<not> length h \<le> a"
    then have lt: "idx + length (markerOf key) < length h" by (simp add: idx(2))
    from assms(1) obtain t where t: "doc = h @ t" by (auto simp: prefix_def)
    from indexOf_SomeD(2) [OF idx(1)] lt t
    have "take (length (markerOf key)) (drop idx h) = markerOf key"
      by simp
    then have "prefix (markerOf key) (drop idx h)"
      by (metis take_is_prefix)
    with lt have "includesStr h (markerOf key)"
      by (intro includesStr_occurrence [of _ idx]) simp_all
    with assms(2) show False by simp
  qed
  with assms(1) have "prefix h (take a doc)"
    by (auto simp: prefix_def)
  with Some ae show ?thesis
    by (simp add: replaceImportedBlock_span prefix_def) (metis append.assoc)
qed

lemma mergeText_keeps_prefix:
  assumes "prefix h doc"
    and "list_all (\<lambda>k. \<not> includesStr h (markerOf (keyName k))) (includeSections recipe)"
  shows "prefix h (mergeText entry recipe doc)"
proof -
  have "prefix h (foldl (\<lambda>t section. replaceImportedBlock t (keyName section)
                          (orEmpty (blocks entry section))) doc ks)"
    if "prefix h doc" "list_all (\<lambda>k. \<not> includesStr h (markerOf (keyName k))) ks" for ks doc
    using that
  proof (induction ks arbitrary: doc)
    case Nil
    then show ?case by simp
  next
    case (Cons k ks)
    from Cons.prems have "prefix h (replaceImportedBlock doc (keyName k) (orEmpty (blocks entry k)))"
      by (intro replaceImportedBlock_keeps_prefix) simp_all
    with Cons show ?case by simp
  qed
  with assms show ?thesis by (simp add: mergeText_def)
qed

text \<open>
  C3: a merge of one section changes only the span between the end of that section's
  marker and the end boundary (the next marker line, the next heading, or the end of the
  document): the text up to the end of the marker and the text from the boundary on are
  the same code units before and after, and a document without the marker is returned
  as it is. A header that holds no marker of an included section is still the beginning
  of the document after \<open>mergeIntoFile\<close> has merged all the sections.
\<close>

theorem C3_merge_changes_only_the_span:
  "(blockSpan doc key = None \<longrightarrow> replaceImportedBlock doc key r = doc)
   \<and> (\<forall>a e. blockSpan doc key = Some (a, e) \<longrightarrow>
         a \<le> e \<and> e \<le> length doc
         \<and> replaceImportedBlock doc key r = take a doc @ written r @ drop e doc
         \<and> take a (replaceImportedBlock doc key r) = take a doc
         \<and> drop (a + length (written r)) (replaceImportedBlock doc key r) = drop e doc)
   \<and> (\<forall>h. prefix h doc
            \<and> list_all (\<lambda>k. \<not> includesStr h (markerOf (keyName k))) (includeSections recipe)
         \<longrightarrow> prefix h (mergeText entry recipe doc))"
proof (intro conjI allI impI)
  assume "blockSpan doc key = None"
  then show "replaceImportedBlock doc key r = doc"
    by (simp add: replaceImportedBlock_span)
next
  fix a e
  assume s: "blockSpan doc key = Some (a, e)"
  from blockSpan_bounds [OF s] show "a \<le> e" and "e \<le> length doc" by simp_all
  from s show eq: "replaceImportedBlock doc key r = take a doc @ written r @ drop e doc"
    by (simp add: replaceImportedBlock_span)
  from blockSpan_bounds [OF s] have "a \<le> length doc" by simp
  then show "take a (replaceImportedBlock doc key r) = take a doc"
    and "drop (a + length (written r)) (replaceImportedBlock doc key r) = drop e doc"
    by (simp_all add: eq)
next
  fix h
  assume "prefix h doc
     \<and> list_all (\<lambda>k. \<not> includesStr h (markerOf (keyName k))) (includeSections recipe)"
  then show "prefix h (mergeText entry recipe doc)"
    by (intro mergeText_keeps_prefix) simp_all
qed

definition noteDoc :: jsstring where
  "noteDoc = ascii ''my header'' @ [10] @ ascii ''## Helps'' @ [10] @ markerOf (ascii ''helps'')
             @ [10] @ ascii ''old text'' @ [10, 10] @ ascii ''## Notes'' @ [10] @ ascii ''mine''"

definition helpsEntry :: LexiconEntry where
  "helpsEntry = agapeEntry\<lparr>blocks := [helps \<mapsto> ascii '' new text '']\<rparr>"

definition helpsRecipe :: Recipe where
  "helpsRecipe = agapeRecipe\<lparr>includeSections := [thayers, helps]\<rparr>"

theorem C3_merge_changes_only_the_span_witness:
  "blockSpan noteDoc (ascii ''thayers'') = None
   \<and> replaceImportedBlock noteDoc (ascii ''thayers'') (ascii ''x'') = noteDoc
   \<and> blockSpan noteDoc (ascii ''helps'') = Some (43, 53)
   \<and> replaceImportedBlock noteDoc (ascii ''helps'') (ascii '' new text '')
       = ascii ''my header'' @ [10] @ ascii ''## Helps'' @ [10] @ markerOf (ascii ''helps'')
         @ [10] @ ascii ''new text'' @ [10, 10] @ ascii ''## Notes'' @ [10] @ ascii ''mine''
   \<and> take 43 (replaceImportedBlock noteDoc (ascii ''helps'') (ascii '' new text '')) = take 43 noteDoc
   \<and> drop (43 + length (written (ascii '' new text '')))
        (replaceImportedBlock noteDoc (ascii ''helps'') (ascii '' new text ''))
       = drop 53 noteDoc
   \<and> prefix (ascii ''my header'' @ [10] @ ascii ''## Helps'' @ [10]) noteDoc
   \<and> prefix (ascii ''my header'' @ [10] @ ascii ''## Helps'' @ [10])
        (mergeText helpsEntry helpsRecipe noteDoc)"
proof -
  have n: "blockSpan noteDoc (ascii ''thayers'') = None"
    by code_simp
  have s: "blockSpan noteDoc (ascii ''helps'') = Some (43, 53)"
    by code_simp
  have "replaceImportedBlock noteDoc (ascii ''helps'') (ascii '' new text '')
       = take 43 noteDoc @ written (ascii '' new text '') @ drop 53 noteDoc"
    by (simp add: replaceImportedBlock_span s)
  also have "\<dots> = ascii ''my header'' @ [10] @ ascii ''## Helps'' @ [10] @ markerOf (ascii ''helps'')
         @ [10] @ ascii ''new text'' @ [10, 10] @ ascii ''## Notes'' @ [10] @ ascii ''mine''"
    by (simp add: written_def trim_def isSpace_def noteDoc_def markerOf_def ascii_def)
  finally have r: "replaceImportedBlock noteDoc (ascii ''helps'') (ascii '' new text '')
       = ascii ''my header'' @ [10] @ ascii ''## Helps'' @ [10] @ markerOf (ascii ''helps'')
         @ [10] @ ascii ''new text'' @ [10, 10] @ ascii ''## Notes'' @ [10] @ ascii ''mine''" .
  have p: "prefix (ascii ''my header'' @ [10] @ ascii ''## Helps'' @ [10]) noteDoc"
    by code_simp
  have m: "list_all (\<lambda>k. \<not> includesStr (ascii ''my header'' @ [10] @ ascii ''## Helps'' @ [10])
                          (markerOf (keyName k))) (includeSections helpsRecipe)"
    by code_simp
  note c3 = C3_merge_changes_only_the_span [of noteDoc _ _ helpsRecipe helpsEntry]
  from c3 [of "ascii ''thayers''" "ascii ''x''"] n
  have 1: "replaceImportedBlock noteDoc (ascii ''thayers'') (ascii ''x'') = noteDoc"
    by blast
  from c3 [of "ascii ''helps''" "ascii '' new text ''"] s
  have 2: "take 43 (replaceImportedBlock noteDoc (ascii ''helps'') (ascii '' new text '')) = take 43 noteDoc"
    and 3: "drop (43 + length (written (ascii '' new text '')))
        (replaceImportedBlock noteDoc (ascii ''helps'') (ascii '' new text '')) = drop 53 noteDoc"
    by blast+
  from c3 [of "ascii ''helps''" "ascii ''x''"] p m
  have 4: "prefix (ascii ''my header'' @ [10] @ ascii ''## Helps'' @ [10])
        (mergeText helpsEntry helpsRecipe noteDoc)"
    by blast
  from n s r p 1 2 3 4 show ?thesis by blast
qed

subsection \<open>The same entry written twice\<close>

text \<open>The text of a section in a document: the span that a merge of the section would replace.\<close>

definition sectionText :: "jsstring \<Rightarrow> jsstring \<Rightarrow> jsstring option" where
  "sectionText doc key =
     (case blockSpan doc key of None \<Rightarrow> None | Some (a, e) \<Rightarrow> Some (take (e - a) (drop a doc)))"

lemma findFirst_skip:
  assumes "\<forall>i < length xs. \<not> P (drop i xs @ ys)"
  shows "findFirst P (xs @ ys) = map_option (\<lambda>n. length xs + n) (findFirst P ys)"
  using assms
proof (induction xs)
  case Nil
  show ?case by (simp add: option.map_ident)
next
  case (Cons x xs)
  from Cons.prems have 0: "\<not> P ((x # xs) @ ys)" by fastforce
  from Cons.prems have "\<forall>i < length xs. \<not> P (drop i xs @ ys)" by fastforce
  from Cons.IH [OF this] 0 show ?case
    by (simp add: option.map_comp comp_def)
qed

lemma findFirst_or:
  "findFirst (\<lambda>s. P s \<or> Q s) xs =
     (case findFirst P xs of
        Some h \<Rightarrow> (case findFirst Q xs of Some m \<Rightarrow> Some (min h m) | None \<Rightarrow> Some h)
      | None \<Rightarrow> findFirst Q xs)"
  by (induction xs) (auto split: option.splits)

text \<open>A pattern without a line feed is found in a text of several lines inside one line.\<close>

fun indexOfLines :: "jsstring list \<Rightarrow> jsstring \<Rightarrow> nat option" where
  "indexOfLines [] m = indexOf [] m"
| "indexOfLines [l] m = indexOf l m"
| "indexOfLines (l # l' # ls) m =
     (case indexOf l m of
        Some i \<Rightarrow> Some i
      | None \<Rightarrow> map_option (\<lambda>i. Suc (length l + i)) (indexOfLines (l' # ls) m))"

lemma prefix_inside_line:
  assumes "prefix m (u @ 10 # r)" and "10 \<notin> set m"
  shows "prefix m u"
proof (cases "length m \<le> length u")
  case True
  have "prefix u (u @ 10 # r)" by simp
  from prefix_length_prefix [OF assms(1) this True] show ?thesis .
next
  case False
  from assms(1) obtain t where t: "u @ 10 # r = m @ t" by (auto simp: prefix_def)
  from False have "length u < length m" by simp
  then have "m ! length u = (m @ t) ! length u" by (simp add: nth_append)
  also have "\<dots> = (u @ 10 # r) ! length u" by (simp add: t)
  also have "\<dots> = 10" by simp
  finally have "10 \<in> set m"
    using \<open>length u < length m\<close> by (metis nth_mem)
  with assms(2) show ?thesis by simp
qed

lemma indexOf_first_line:
  assumes "10 \<notin> set m"
  shows "indexOf (l @ 10 # r) m =
     (case indexOf l m of
        Some i \<Rightarrow> Some i
      | None \<Rightarrow> map_option (\<lambda>i. Suc (length l + i)) (indexOf r m))"
proof (cases "indexOf l m")
  case None
  have no: "\<not> prefix m (drop i (l @ [10]) @ r)" if "i < length (l @ [10])" for i
  proof
    assume p: "prefix m (drop i (l @ [10]) @ r)"
    from that have "drop i (l @ [10]) @ r = drop i l @ 10 # r" by simp
    with p have "prefix m (drop i l @ 10 # r)" by simp
    then have "prefix m (drop i l)" using assms by (rule prefix_inside_line)
    moreover from that have "i \<le> length l" by simp
    ultimately show False
      using None findFirst_NoneD [of "prefix m" l i] by (simp add: indexOf_def)
  qed
  have "findFirst (prefix m) ((l @ [10]) @ r)
        = map_option (\<lambda>n. length (l @ [10]) + n) (findFirst (prefix m) r)"
    by (rule findFirst_skip) (use no in blast)
  with None show ?thesis by (simp add: indexOf_def)
next
  case (Some i)
  from indexOf_SomeD [OF Some] have i: "i + length m \<le> length l" "take (length m) (drop i l) = m"
      "\<forall>j < i. \<not> prefix m (drop j l)"
    by simp_all
  define a where "a = take i l"
  define b where "b = drop i l"
  have lab: "l = a @ b" by (simp add: a_def b_def)
  from i(1) have la: "length a = i" by (simp add: a_def)
  from i(2) have pb: "prefix m b"
    unfolding b_def by (metis take_is_prefix)
  have no: "\<not> prefix m (drop j a @ b @ 10 # r)" if "j < length a" for j
  proof
    assume p: "prefix m (drop j a @ b @ 10 # r)"
    from that have "drop j l = drop j a @ b" by (simp add: lab)
    with p have "prefix m (drop j l @ 10 # r)" by simp
    then have "prefix m (drop j l)" using assms by (rule prefix_inside_line)
    with i(3) that la show False by simp
  qed
  have "findFirst (prefix m) (a @ b @ 10 # r)
        = map_option (\<lambda>n. length a + n) (findFirst (prefix m) (b @ 10 # r))"
    by (rule findFirst_skip) (use no in blast)
  moreover from pb have "prefix m (b @ 10 # r)"
    by (simp add: prefix_prefix)
  then have "findFirst (prefix m) (b @ 10 # r) = Some 0"
    by (cases "b @ 10 # r") simp_all
  ultimately have "findFirst (prefix m) (l @ 10 # r) = Some i"
    by (simp add: lab la)
  with Some show ?thesis
    by (simp add: indexOf_def)
qed

lemma joinWith_Cons2: "joinWith sep (l # l' # ls) = l @ sep @ joinWith sep (l' # ls)"
  by (simp add: joinWith_def)

lemma indexOf_joinWith:
  assumes "10 \<notin> set m"
  shows "indexOf (joinWith [10] ls) m = indexOfLines ls m"
  using assms
proof (induction ls m rule: indexOfLines.induct)
  case (1 m)
  then show ?case by (simp add: joinWith_def)
next
  case (2 l m)
  then show ?case by (simp add: joinWith_def)
next
  case (3 l l' ls m)
  have "indexOf (joinWith [10] (l # l' # ls)) m = indexOf (l @ 10 # joinWith [10] (l' # ls)) m"
    by (simp add: joinWith_Cons2)
  also have "\<dots> = (case indexOf l m of
        Some i \<Rightarrow> Some i
      | None \<Rightarrow> map_option (\<lambda>i. Suc (length l + i)) (indexOf (joinWith [10] (l' # ls)) m))"
    using "3.prems" by (rule indexOf_first_line)
  finally show ?case
    using 3 by (simp split: option.split)
qed


text \<open>The end boundary is the first heading or marker line after the marker.\<close>

definition boundaryAt :: "jsstring \<Rightarrow> bool" where
  "boundaryAt s = (headingAt s \<or> prefix (10 # ascii ''<!-- imported:'') s)"

lemma blockSpan_boundary:
  "blockSpan doc key =
     (case indexOf doc (markerOf key) of
        None \<Rightarrow> None
      | Some idx \<Rightarrow>
          Some (idx + length (markerOf key),
                idx + length (markerOf key)
                  + (case findFirst boundaryAt (drop (idx + length (markerOf key)) doc) of
                       Some i \<Rightarrow> i
                     | None \<Rightarrow> length (drop (idx + length (markerOf key)) doc))))"
  unfolding blockSpan_def boundaryAt_def Let_def indexOf_def findFirst_or
  by (auto split: option.splits)

lemma blockSpan_at:
  assumes "doc = pre @ markerOf key @ span @ post"
    and "indexOf doc (markerOf key) = Some (length pre)"
    and "findFirst boundaryAt (span @ post) = Some (length span)"
  shows "blockSpan doc key
           = Some (length pre + length (markerOf key), length pre + length (markerOf key) + length span)"
    and "sectionText doc key = Some span"
    and "replaceImportedBlock doc key r = pre @ markerOf key @ written r @ post"
proof -
  have d: "drop (length pre + length (markerOf key)) doc = span @ post"
    by (simp add: assms(1))
  show s: "blockSpan doc key
           = Some (length pre + length (markerOf key), length pre + length (markerOf key) + length span)"
    by (simp add: blockSpan_boundary assms(2,3) d)
  show "sectionText doc key = Some span"
    by (simp add: sectionText_def s) (simp add: assms(1))
  show "replaceImportedBlock doc key r = pre @ markerOf key @ written r @ post"
    by (simp add: replaceImportedBlock_span s) (simp add: assms(1))
qed

subsection \<open>The same entry written twice\<close>

text \<open>
  The lines of the document up to the heading of its only section, and from the heading
  \<open>Outbound Links\<close> on.
\<close>

definition agapeHeadLines :: "jsstring list" where
  "agapeHeadLines =
     [ascii ''---'',
      ascii ''type: lexicon/strongs'',
      ascii ''lang: greek'',
      ascii ''strong: G26'',
      [],
      ascii ''lemma: '',
      ascii ''transliteration: agape'',
      ascii ''pronunciation: '',
      ascii ''phonetic: '',
      ascii ''part_of_speech: '',
      [],
      ascii ''aliases:'',
      ascii ''  - G26'',
      ascii ''  - agape'',
      [],
      ascii ''source_primary: https://biblehub.com/strongs/greek/26.htm'',
      ascii ''source_alt:'',
      [],
      ascii ''imported_at: 2026-01-01'',
      ascii ''import_recipe: r1'',
      [],
      ascii ''sections_included:'',
      ascii ''  - strongs_definition'',
      [],
      ascii ''links_see_also:'',
      ascii ''links_related_strongs:'',
      ascii ''links_topical:'',
      ascii ''links_scripture:'',
      ascii ''  - '' @ [34] @ ascii ''[[Scripture/John/3-16|John 3:16]]'' @ [34],
      [],
      ascii ''crawl_depth: 2'',
      ascii ''crawl_root: G26'',
      ascii ''---'',
      ascii ''# G26 '' @ [8212] @ ascii ''  (agape)'',
      [],
      ascii ''> **Part of Speech:**   '',
      ascii ''> **Pronunciation:**   '',
      ascii ''> **Primary source:** https://biblehub.com/strongs/greek/26.htm'',
      [],
      ascii ''---'',
      [],
      ascii ''## Strong'' @ [39] @ ascii ''s Definition'']"

definition agapeTailLines :: "jsstring list" where
  "agapeTailLines =
     [ascii ''## Outbound Links'',
      [],
      ascii ''**See also (direct Strong'' @ [39] @ ascii ''s cross-refs):**  '',
      [],
      [],
      ascii ''**Related Strong'' @ [39] @ ascii ''s (lexical / semantic):**  '',
      [],
      [],
      ascii ''**Topical connections:**  '',
      [],
      [],
      ascii ''**Scripture references:**  '',
      ascii ''[[Scripture/John/3-16|John 3:16]]'',
      []]"

text \<open>The document the first call creates, and the document the second call leaves.\<close>

definition agapeCreated :: jsstring where
  "agapeCreated =
     joinWith [10]
       (agapeHeadLines
        @ [markerOf (ascii ''strongs_definition''),
           ascii ''love, as in [[John 3:16]]'',
           [], ascii ''---'', [], [], ascii ''---'', []]
        @ agapeTailLines)"

definition agapeMerged :: jsstring where
  "agapeMerged =
     joinWith [10]
       (agapeHeadLines
        @ [markerOf (ascii ''strongs_definition''),
           ascii ''love, as in John 3:16'',
           []]
        @ agapeTailLines)"

definition agapeFirst :: "Vault \<times> (exn + bool)" where
  "agapeFirst = upsert normalizePathMock (ascii ''2026-01-01'') agapeEntry agapeRecipe emptyVault"

definition agapeSecond :: "Vault \<times> (exn + bool)" where
  "agapeSecond = upsert normalizePathMock (ascii ''2026-01-02'') agapeEntry agapeRecipe (fst agapeFirst)"

lemmas writerDefs =
  renderNew_def Let_def joinWith_def keyName_def sectionTitles_def sectionOrder_def orEmpty_def
  truthy_def langName_def wikilink_def quoted_def renderSection_def linkifyScriptureRefs_def
  wholeWord_def wordBoundary_def isWordChar_def lastOpt_def trim_def isSpace_def
  scriptureLinkPath_def capitalize_def upperAscii_def showInt_def stripSlashes_def
  filePath_def buildTitle_def replaceAll_def safeFileName_def literally_def whitespaceRun_def
  normalizePathMock_def slashRun_def markerOf_def

lemma agapeCreated_eval:
  "renderNew (ascii ''2026-01-01'') agapeEntry agapeRecipe = agapeCreated"
  by (simp add: writerDefs agapeEntry_def agapeRecipe_def john316_def agapeCreated_def
      agapeHeadLines_def agapeTailLines_def ascii_def)

lemma agape_path:
  "filePath normalizePathMock (buildTitle agapeEntry agapeRecipe) agapeRecipe = ascii ''Lexicon/G26.md''"
  "normalizePathMock (stripSlashes (rootFolder agapeRecipe)) = ascii ''Lexicon''"
  by (simp_all add: writerDefs agapeEntry_def agapeRecipe_def ascii_def)

lemma agapeFirst_eval:
  "agapeFirst =
     (\<lparr>files = [ascii ''Lexicon/G26.md'' \<mapsto> agapeCreated],
       folders = [ascii ''Lexicon''], rejects = (\<lambda>p. False)\<rparr>, Inr True)"
  unfolding agapeFirst_def upsert_def ensureFolder_def Let_def agape_path agapeCreated_eval
  by (simp add: vaultCreate_def vaultExists_def createFolder_def emptyVault_def ascii_def)

lemma agapeCreated_marker:
  "indexOf agapeCreated (markerOf (ascii ''strongs_definition''))
     = Some (length (joinWith [10] agapeHeadLines @ [10]))"
proof -
  have "10 \<notin> set (markerOf (ascii ''strongs_definition''))"
    by (simp add: markerOf_def ascii_def)
  then have "indexOf agapeCreated (markerOf (ascii ''strongs_definition''))
      = indexOfLines (agapeHeadLines
        @ [markerOf (ascii ''strongs_definition''),
           ascii ''love, as in [[John 3:16]]'',
           [], ascii ''---'', [], [], ascii ''---'', []]
        @ agapeTailLines) (markerOf (ascii ''strongs_definition''))"
    unfolding agapeCreated_def by (rule indexOf_joinWith)
  also have "\<dots> = Some (length (joinWith [10] agapeHeadLines @ [10]))"
    by (simp add: agapeHeadLines_def agapeTailLines_def indexOf_def markerOf_def joinWith_def ascii_def)
  finally show ?thesis .
qed


lemma agapeMerged_marker:
  "indexOf agapeMerged (markerOf (ascii ''strongs_definition''))
     = Some (length (joinWith [10] agapeHeadLines @ [10]))"
proof -
  have "10 \<notin> set (markerOf (ascii ''strongs_definition''))"
    by (simp add: markerOf_def ascii_def)
  then have "indexOf agapeMerged (markerOf (ascii ''strongs_definition''))
      = indexOfLines (agapeHeadLines
        @ [markerOf (ascii ''strongs_definition''), ascii ''love, as in John 3:16'', []]
        @ agapeTailLines) (markerOf (ascii ''strongs_definition''))"
    unfolding agapeMerged_def by (rule indexOf_joinWith)
  also have "\<dots> = Some (length (joinWith [10] agapeHeadLines @ [10]))"
    by (simp add: agapeHeadLines_def agapeTailLines_def indexOf_def markerOf_def joinWith_def ascii_def)
  finally show ?thesis .
qed

definition agapeCreatedSpan :: jsstring where
  "agapeCreatedSpan =
     [10] @ ascii ''love, as in [[John 3:16]]'' @ [10, 10] @ ascii ''---'' @ [10, 10, 10]
       @ ascii ''---'' @ [10]"

definition agapeMergedSpan :: jsstring where
  "agapeMergedSpan = [10] @ ascii ''love, as in John 3:16'' @ [10]"

lemma agapeCreated_parts:
  "agapeCreated = (joinWith [10] agapeHeadLines @ [10]) @ markerOf (ascii ''strongs_definition'')
                    @ agapeCreatedSpan @ ([10] @ joinWith [10] agapeTailLines)"
  by (simp add: agapeCreated_def agapeCreatedSpan_def agapeHeadLines_def agapeTailLines_def
      joinWith_def markerOf_def ascii_def)

lemma agapeMerged_parts:
  "agapeMerged = (joinWith [10] agapeHeadLines @ [10]) @ markerOf (ascii ''strongs_definition'')
                    @ agapeMergedSpan @ ([10] @ joinWith [10] agapeTailLines)"
  by (simp add: agapeMerged_def agapeMergedSpan_def agapeHeadLines_def agapeTailLines_def
      joinWith_def markerOf_def ascii_def)

lemma agapeCreated_boundary:
  "findFirst boundaryAt (agapeCreatedSpan @ ([10] @ joinWith [10] agapeTailLines))
     = Some (length agapeCreatedSpan)"
  by (simp add: agapeCreatedSpan_def agapeTailLines_def joinWith_def boundaryAt_def headingAt_def
      isSpace_def ascii_def)

lemma agapeMerged_boundary:
  "findFirst boundaryAt (agapeMergedSpan @ ([10] @ joinWith [10] agapeTailLines))
     = Some (length agapeMergedSpan)"
  by (simp add: agapeMergedSpan_def agapeTailLines_def joinWith_def boundaryAt_def headingAt_def
      isSpace_def ascii_def)

lemma agape_mergeText: "mergeText agapeEntry agapeRecipe agapeCreated = agapeMerged"
proof -
  have "mergeText agapeEntry agapeRecipe agapeCreated
      = replaceImportedBlock agapeCreated (ascii ''strongs_definition'') (ascii ''love, as in John 3:16'')"
    by (simp add: mergeText_def agapeRecipe_def agapeEntry_def keyName_def orEmpty_def)
  also have "\<dots> = (joinWith [10] agapeHeadLines @ [10]) @ markerOf (ascii ''strongs_definition'')
                    @ written (ascii ''love, as in John 3:16'') @ ([10] @ joinWith [10] agapeTailLines)"
    by (rule blockSpan_at(3) [OF agapeCreated_parts agapeCreated_marker agapeCreated_boundary])
  also have "\<dots> = agapeMerged"
    unfolding agapeMerged_parts
    by (simp add: written_def trim_def isSpace_def agapeMergedSpan_def ascii_def)
  finally show ?thesis .
qed

lemma agapeSecond_eval:
  "agapeSecond =
     (\<lparr>files = [ascii ''Lexicon/G26.md'' \<mapsto> agapeMerged],
       folders = [ascii ''Lexicon''], rejects = (\<lambda>p. False)\<rparr>, Inr False)"
  unfolding agapeSecond_def upsert_def ensureFolder_def Let_def agape_path agapeFirst_eval
  by (simp add: mergeIntoFile_def vaultModify_def vaultExists_def agape_mergeText ascii_def)

text \<open>
  C2 on the code: the first call creates the document, the second takes the merge path,
  and the text of the section afterwards is not the text the first rendering gave it.
  The block written first carries the link \<open>[[John 3:16]]\<close> and is followed by the rule;
  the merge writes the raw block of the entry, without the link, and drops the rule.
\<close>

theorem C2_second_upsert_rewrites_the_section:
  "agapeFirst = (\<lparr>files = [ascii ''Lexicon/G26.md'' \<mapsto> agapeCreated],
                   folders = [ascii ''Lexicon''], rejects = (\<lambda>p. False)\<rparr>, Inr True)
   \<and> agapeSecond = (\<lparr>files = [ascii ''Lexicon/G26.md'' \<mapsto> agapeMerged],
                      folders = [ascii ''Lexicon''], rejects = (\<lambda>p. False)\<rparr>, Inr False)
   \<and> sectionText agapeCreated (ascii ''strongs_definition'')
       = Some ([10] @ ascii ''love, as in [[John 3:16]]'' @ [10, 10] @ ascii ''---'' @ [10, 10, 10]
               @ ascii ''---'' @ [10])
   \<and> sectionText agapeMerged (ascii ''strongs_definition'')
       = Some ([10] @ ascii ''love, as in John 3:16'' @ [10])
   \<and> \<not> includesStr agapeMerged (ascii ''[[John 3:16]]'')"
proof -
  have 1: "sectionText agapeCreated (ascii ''strongs_definition'') = Some agapeCreatedSpan"
    by (rule blockSpan_at(2) [OF agapeCreated_parts agapeCreated_marker agapeCreated_boundary])
  have 2: "sectionText agapeMerged (ascii ''strongs_definition'') = Some agapeMergedSpan"
    by (rule blockSpan_at(2) [OF agapeMerged_parts agapeMerged_marker agapeMerged_boundary])
  have "10 \<notin> set (ascii ''[[John 3:16]]'')"
    by (simp add: ascii_def)
  then have "indexOf agapeMerged (ascii ''[[John 3:16]]'')
      = indexOfLines (agapeHeadLines
        @ [markerOf (ascii ''strongs_definition''), ascii ''love, as in John 3:16'', []]
        @ agapeTailLines) (ascii ''[[John 3:16]]'')"
    unfolding agapeMerged_def by (rule indexOf_joinWith)
  also have "\<dots> = None"
    by (simp add: agapeHeadLines_def agapeTailLines_def indexOf_def markerOf_def ascii_def)
  finally have 3: "\<not> includesStr agapeMerged (ascii ''[[John 3:16]]'')"
    by (simp add: includesStr_def)
  from 1 2 3 agapeFirst_eval agapeSecond_eval show ?thesis
    by (simp add: agapeCreatedSpan_def agapeMergedSpan_def)
qed

section \<open>Seed normalization (normalize.ts, main.ts)\<close>

text \<open>
  A search for a regular expression without the \<open>g\<close> flag: the match at the leftmost
  position that has one. The matcher is given the code unit before the position.
\<close>

fun firstMatch :: "(nat option \<Rightarrow> jsstring \<Rightarrow> 'a option) \<Rightarrow> nat option \<Rightarrow> jsstring \<Rightarrow> 'a option" where
  "firstMatch mt prev [] = mt prev []"
| "firstMatch mt prev (c # cs) =
     (case mt prev (c # cs) of Some r \<Rightarrow> Some r | None \<Rightarrow> firstMatch mt (Some c) cs)"

text \<open>A literal under the \<open>i\<close> flag: the letters of ASCII match in either case.\<close>

definition ciPrefix :: "jsstring \<Rightarrow> jsstring \<Rightarrow> bool" where
  "ciPrefix pat s = prefix (map lowerAscii pat) (map lowerAscii s)"

definition startsWithWordChar :: "jsstring \<Rightarrow> bool" where
  "startsWithWordChar s = (case s of [] \<Rightarrow> False | c # _ \<Rightarrow> isWordChar c)"

text \<open>
  \<open>0*([0-9]{1,5})\b\<close> at the start of a string, with the text of the group. Both parts
  take digits only and the \<open>\b\<close> needs a code unit that is not a word character after
  the match, so the match is the whole run of digits; the greedy \<open>0*\<close> takes all the
  leading zeros but leaves one digit to the group, which may hold five at most.
\<close>

definition strongNumberAt :: "jsstring \<Rightarrow> jsstring option" where
  "strongNumberAt rest =
     (let ds = takeWhile isDigit rest;
          zeros = min (length (takeWhile (\<lambda>c. c = 48) ds)) (length ds - 1)
      in if ds \<noteq> [] \<and> length ds - zeros \<le> 5 \<and> \<not> startsWithWordChar (dropWhile isDigit rest)
         then Some (drop zeros ds) else None)"

text \<open>\<open>/\b([GH])\s*0*([0-9]{1,5})\b/i\<close> at a position: the letter and the digits.\<close>

definition prefixedIdAt :: "nat option \<Rightarrow> jsstring \<Rightarrow> (nat \<times> jsstring) option" where
  "prefixedIdAt prev rest =
     (case rest of
        [] \<Rightarrow> None
      | c # r \<Rightarrow>
          if wordBoundary prev rest \<and> (c = 71 \<or> c = 72 \<or> c = 103 \<or> c = 104)
          then map_option (\<lambda>ds. (c, ds)) (strongNumberAt (dropWhile isSpace r))
          else None)"

text \<open>\<open>/\b0*([0-9]{1,5})\b/\<close> at a position.\<close>

definition bareNumberAt :: "nat option \<Rightarrow> jsstring \<Rightarrow> jsstring option" where
  "bareNumberAt prev rest = (if wordBoundary prev rest then strongNumberAt rest else None)"

text \<open>\<open>parseInt(ds, 10)\<close> of a string of digits.\<close>

definition digitsValue :: "jsstring \<Rightarrow> nat" where
  "digitsValue ds = foldl (\<lambda>n c. 10 * n + (c - 48)) 0 ds"

definition normalizeStrongId :: "jsstring \<Rightarrow> Lang option \<Rightarrow> jsstring option" where
  "normalizeStrongId raw langHint =
     (let s = trim raw
      in case firstMatch prefixedIdAt None s of
           Some m1 \<Rightarrow> Some (upperAscii (fst m1) # decimal (digitsValue (snd m1)))
         | None \<Rightarrow>
             (case firstMatch bareNumberAt None s of
                None \<Rightarrow> None
              | Some m2 \<Rightarrow>
                  (case langHint of
                     None \<Rightarrow> None
                   | Some l \<Rightarrow> Some ((if l = greek then 71 else 72) # decimal (digitsValue m2)))))"

text \<open>
  \<open>String(n)\<close> for the result of \<open>parseInt\<close> on any number of digits: the decimal digits
  while the number is below \<open>2^53\<close>; above, the number is rounded to a float and its
  text is left to the parameter \<open>big\<close>.
\<close>

definition numberText :: "(nat \<Rightarrow> jsstring) \<Rightarrow> nat \<Rightarrow> jsstring" where
  "numberText big n = (if n < 9007199254740992 then decimal n else big n)"

text \<open>
  \<open>/biblehub\.com\/strongs\/(greek|hebrew)\/(\d+)\.htm/i\<close> and
  \<open>/biblehub\.com\/(greek|hebrew)\/(\d+)\.htm/i\<close> at a position, for the literal that
  precedes the language: the language and the digits.
\<close>

definition sourceUrlAt :: "jsstring \<Rightarrow> nat option \<Rightarrow> jsstring \<Rightarrow> (Lang \<times> jsstring) option" where
  "sourceUrlAt lit prev rest =
     (if \<not> ciPrefix lit rest then None
      else
        (let r1 = drop (length lit) rest;
             named = (if ciPrefix (ascii ''greek'') r1 then Some (greek, drop 5 r1)
                      else if ciPrefix (ascii ''hebrew'') r1 then Some (hebrew, drop 6 r1)
                      else None)
         in case named of
              None \<Rightarrow> None
            | Some lr \<Rightarrow>
                (case snd lr of
                   [] \<Rightarrow> None
                 | c # r3 \<Rightarrow>
                     if c = 47 \<and> takeWhile isDigit r3 \<noteq> []
                        \<and> ciPrefix (ascii ''.htm'') (dropWhile isDigit r3)
                     then Some (fst lr, takeWhile isDigit r3) else None)))"

text \<open>\<open>/\b(\d{1,5})\b/\<close> at a position.\<close>

definition shortNumberAt :: "nat option \<Rightarrow> jsstring \<Rightarrow> jsstring option" where
  "shortNumberAt prev rest =
     (let ds = takeWhile isDigit rest
      in if wordBoundary prev rest \<and> ds \<noteq> [] \<and> length ds \<le> 5
            \<and> \<not> startsWithWordChar (dropWhile isDigit rest)
         then Some ds else None)"

definition normalizeSeedToStrong :: "(nat \<Rightarrow> jsstring) \<Rightarrow> jsstring \<Rightarrow> jsstring option" where
  "normalizeSeedToStrong big seed =
     (let s = trim seed
      in case firstMatch (sourceUrlAt (ascii ''biblehub.com/strongs/'')) None s of
           Some m \<Rightarrow> Some ((if fst m = greek then 71 else 72) # numberText big (digitsValue (snd m)))
         | None \<Rightarrow>
             (case firstMatch (sourceUrlAt (ascii ''biblehub.com/'')) None s of
                Some m2 \<Rightarrow>
                  Some ((if fst m2 = greek then 71 else 72) # numberText big (digitsValue (snd m2)))
              | None \<Rightarrow>
                  (case normalizeStrongId s None of
                     Some m3 \<Rightarrow> Some m3
                   | None \<Rightarrow>
                       (case firstMatch shortNumberAt None s of
                          Some n \<Rightarrow> normalizeStrongId n (Some greek)
                        | None \<Rightarrow> None))))"

lemmas normalizeDefs =
  normalizeSeedToStrong_def normalizeStrongId_def sourceUrlAt_def shortNumberAt_def
  bareNumberAt_def prefixedIdAt_def strongNumberAt_def startsWithWordChar_def ciPrefix_def
  digitsValue_def numberText_def wordBoundary_def isWordChar_def isDigit_def isSpace_def trim_def
  lowerAscii_def upperAscii_def Let_def ascii_def

text \<open>The cases of the repository's tests of \<open>normalizeStrongId\<close>.\<close>

lemma normalizeStrongId_tests:
  "normalizeStrongId (ascii ''G2198'') None = Some (ascii ''G2198'')"
  "normalizeStrongId (ascii ''g2198'') None = Some (ascii ''G2198'')"
  "normalizeStrongId (ascii ''G 02198'') None = Some (ascii ''G2198'')"
  "normalizeStrongId (ascii ''H 01623'') None = Some (ascii ''H1623'')"
  "normalizeStrongId (ascii ''2198'') (Some greek) = Some (ascii ''G2198'')"
  "normalizeStrongId (ascii ''1623'') (Some hebrew) = Some (ascii ''H1623'')"
  "normalizeStrongId (ascii ''invalid'') None = None"
  "normalizeStrongId [] None = None"
  "normalizeStrongId (ascii ''123456'') None = None"
  by (simp_all add: normalizeDefs)

text \<open>
  C9 on the code: a source url whose number has six digits is normalized to \<open>G123456\<close>,
  and normalizing \<open>G123456\<close> gives no id at all, so the result is not a fixed point. The
  url patterns take any number of digits (\<open>\d+\<close>), where \<open>normalizeStrongId\<close> takes five
  at most.
\<close>

theorem C9_url_seed_not_a_fixed_point:
  "normalizeSeedToStrong big (ascii ''https://biblehub.com/strongs/greek/123456.htm'')
     = Some (ascii ''G123456'')
   \<and> normalizeSeedToStrong big (ascii ''G123456'') = None
   \<and> normalizeStrongId (ascii ''G123456'') None = None"
  by (simp add: normalizeDefs)

end
